theory Spec2Isabelle
  imports Main "HOL-Library.Sublist"
begin

section \<open>Values exchanged with the wiki API\<close>

text \<open>
  \<^verbatim>\<open>get_mod_items.py\<close> reads every API answer with \<^verbatim>\<open>response.json()\<close> and then
  subscripts, iterates and tests the decoded value without checking its shape. The
  decoded value is therefore modelled as an arbitrary JSON document. An object is the
  list of its items in insertion order (keys pairwise different, as in a Python dict); a
  float is kept as mantissa and binary exponent, only its being zero matters here.
  A \<^typ>\<open>char\<close> stands for one character of a Python \<^verbatim>\<open>str\<close>.
\<close>

datatype json =
    JNull
  | JBool bool
  | JInt int
  | JFloat int int
  | JStr string
  | JArr "json list"
  | JObj "(string \<times> json) list"

text \<open>The exceptions the program can meet; every handler of the source catches all of them.\<close>

datatype py_error =
    KeyError
  | TypeError
  | IndexError
  | AttributeError
  | RequestException
  | JSONDecodeError
  | OSError

type_synonym 'a res = "py_error + 'a"

text \<open>Python truth value of a decoded document (\<^verbatim>\<open>if x:\<close>, \<^verbatim>\<open>not x\<close>).\<close>

fun truthy :: "json \<Rightarrow> bool" where
  "truthy JNull = False"
| "truthy (JBool b) = b"
| "truthy (JInt i) = (i \<noteq> 0)"
| "truthy (JFloat m e) = (m \<noteq> 0)"
| "truthy (JStr s) = (s \<noteq> [])"
| "truthy (JArr xs) = (xs \<noteq> [])"
| "truthy (JObj kvs) = (kvs \<noteq> [])"

text \<open>\<^verbatim>\<open>needle in hay\<close> on two strings: \<^verbatim>\<open>needle\<close> occurs as a contiguous block.\<close>

fun contains :: "string \<Rightarrow> string \<Rightarrow> bool" where
  "contains needle [] = (needle = [])"
| "contains needle (c # cs) = (prefix needle (c # cs) \<or> contains needle cs)"

text \<open>\<^verbatim>\<open>k in v\<close> for a string literal \<^verbatim>\<open>k\<close>: key of a dict, element of a list,
  substring of a string, \<^verbatim>\<open>TypeError\<close> on anything else.\<close>

fun py_in :: "string \<Rightarrow> json \<Rightarrow> bool res" where
  "py_in k (JObj kvs) = Inr (k \<in> set (map fst kvs))"
| "py_in k (JArr xs) = Inr (JStr k \<in> set xs)"
| "py_in k (JStr s) = Inr (contains k s)"
| "py_in k JNull = Inl TypeError"
| "py_in k (JBool b) = Inl TypeError"
| "py_in k (JInt i) = Inl TypeError"
| "py_in k (JFloat m e) = Inl TypeError"

text \<open>Indexing a sequence with an integer; a negative index counts from the end.\<close>

definition py_index :: "'a list \<Rightarrow> int \<Rightarrow> 'a res" where
  "py_index xs i =
     (if 0 \<le> i \<and> i < int (length xs) then Inr (xs ! nat i)
      else if i < 0 \<and> - int (length xs) \<le> i then Inr (xs ! nat (int (length xs) + i))
      else Inl IndexError)"

text \<open>\<^verbatim>\<open>v[k]\<close>. A dict decoded from JSON has string keys only; a list or a string
  takes an integer (a bool counts as 0 or 1).\<close>

fun py_subscript :: "json \<Rightarrow> json \<Rightarrow> json res" where
  "py_subscript (JObj kvs) (JStr k) =
     (case map_of kvs k of None \<Rightarrow> Inl KeyError | Some v \<Rightarrow> Inr v)"
| "py_subscript (JObj kvs) (JArr ys) = Inl TypeError"
| "py_subscript (JObj kvs) (JObj ys) = Inl TypeError"
| "py_subscript (JObj kvs) k = Inl KeyError"
| "py_subscript (JArr xs) (JInt i) = py_index xs i"
| "py_subscript (JArr xs) (JBool b) = py_index xs (if b then 1 else 0)"
| "py_subscript (JArr xs) k = Inl TypeError"
| "py_subscript (JStr s) (JInt i) =
     (case py_index s i of Inl e \<Rightarrow> Inl e | Inr c \<Rightarrow> Inr (JStr [c]))"
| "py_subscript (JStr s) (JBool b) =
     (case py_index s (if b then 1 else 0) of Inl e \<Rightarrow> Inl e | Inr c \<Rightarrow> Inr (JStr [c]))"
| "py_subscript (JStr s) k = Inl TypeError"
| "py_subscript v k = Inl TypeError"

definition py_getitem :: "json \<Rightarrow> string \<Rightarrow> json res" where
  "py_getitem v k = py_subscript v (JStr k)"

text \<open>\<^verbatim>\<open>for x in v\<close>: the elements of a list, the keys of a dict, the characters of a
  string.\<close>

fun py_iter :: "json \<Rightarrow> json list res" where
  "py_iter (JArr xs) = Inr xs"
| "py_iter (JObj kvs) = Inr (map (\<lambda>kv. JStr (fst kv)) kvs)"
| "py_iter (JStr s) = Inr (map (\<lambda>c. JStr [c]) s)"
| "py_iter JNull = Inl TypeError"
| "py_iter (JBool b) = Inl TypeError"
| "py_iter (JInt i) = Inl TypeError"
| "py_iter (JFloat m e) = Inl TypeError"

text \<open>\<^verbatim>\<open>v.get(k, default)\<close>: only a dict has the method.\<close>

fun py_get :: "json \<Rightarrow> string \<Rightarrow> json \<Rightarrow> json res" where
  "py_get (JObj kvs) k d = Inr (case map_of kvs k of None \<Rightarrow> d | Some v \<Rightarrow> v)"
| "py_get v k d = Inl AttributeError"

text \<open>A list comprehension whose element expression can raise stops at the first raise.\<close>

fun map_res :: "('a \<Rightarrow> 'b res) \<Rightarrow> 'a list \<Rightarrow> 'b list res" where
  "map_res f [] = Inr []"
| "map_res f (x # xs) =
     (case f x of
        Inl e \<Rightarrow> Inl e
      | Inr y \<Rightarrow> (case map_res f xs of Inl e \<Rightarrow> Inl e | Inr ys \<Rightarrow> Inr (y # ys)))"

section \<open>Strings\<close>

text \<open>\<^verbatim>\<open>str.lower()\<close> on the letters A to Z; other characters are left as they are.\<close>

definition lower_char :: "char \<Rightarrow> char" where
  "lower_char c =
     (case map_of (zip ''ABCDEFGHIJKLMNOPQRSTUVWXYZ'' ''abcdefghijklmnopqrstuvwxyz'') c of
        None \<Rightarrow> c
      | Some d \<Rightarrow> d)"

definition lower :: "string \<Rightarrow> string" where
  "lower s = map lower_char s"

text \<open>\<^verbatim>\<open>str(n)\<close> of an integer, in decimal.\<close>

definition digit_char :: "nat \<Rightarrow> char" where
  "digit_char d = ''0123456789'' ! d"

function show_nat :: "nat \<Rightarrow> string" where
  "show_nat n = (if n < 10 then [digit_char n] else show_nat (n div 10) @ [digit_char (n mod 10)])"
  by pat_completeness auto
termination
  by (relation "measure (\<lambda>n. n)") auto

definition show_int :: "int \<Rightarrow> string" where
  "show_int i = (if i < 0 then CHR ''-'' # show_nat (nat (- i)) else show_nat (nat i))"

section \<open>File names\<close>

text \<open>
  \<^verbatim>\<open>sanitize_filename\<close>: every character of \<^verbatim>\<open>invalid_chars\<close> (less-than,
  greater-than, colon, double quote, slash, backslash, bar, question mark, star) is
  replaced by an underscore, one character after the other, and the result is cut to
  its first 255 characters.
\<close>

definition invalid_chars :: "string" where
  "invalid_chars =
     [CHR ''<'', CHR ''>'', CHR '':'', CHR 0x22, CHR ''/'', CHR 0x5C, CHR ''|'', CHR ''?'', CHR ''*'']"

definition replace_char :: "char \<Rightarrow> char \<Rightarrow> string \<Rightarrow> string" where
  "replace_char old new s = map (\<lambda>c. if c = old then new else c) s"

definition sanitize_filename :: "string \<Rightarrow> string" where
  "sanitize_filename filename =
     take 255 (fold (\<lambda>char name. replace_char char CHR ''_'' name) invalid_chars filename)"

text \<open>\<^verbatim>\<open>os.path.splitext(p)[1]\<close> (POSIX): the text from the last dot of the last path
  component, unless that component has only dots before it.\<close>

definition rfind :: "char \<Rightarrow> string \<Rightarrow> int" where
  "rfind c p = (case filter (\<lambda>i. p ! i = c) (rev [0..<length p]) of [] \<Rightarrow> - 1 | i # _ \<Rightarrow> int i)"

definition splitext_ext :: "string \<Rightarrow> string" where
  "splitext_ext p =
     (let sepIndex = rfind CHR ''/'' p; dotIndex = rfind CHR ''.'' p
      in if dotIndex > sepIndex
            \<and> filter (\<lambda>c. c \<noteq> CHR ''.'') (take (nat (dotIndex - (sepIndex + 1))) (drop (nat (sepIndex + 1)) p)) \<noteq> []
         then drop (nat dotIndex) p
         else [])"

text \<open>\<^verbatim>\<open>os.path.join(a, b)\<close> (POSIX) for two components.\<close>

definition path_join :: "string \<Rightarrow> string \<Rightarrow> string" where
  "path_join a b =
     (if b \<noteq> [] \<and> hd b = CHR ''/'' then b
      else if a = [] \<or> last a = CHR ''/'' then a @ b
      else a @ ''/'' @ b)"

section \<open>The store and the fetcher\<close>

text \<open>
  The records that \<^verbatim>\<open>process_mod\<close> builds and \<^verbatim>\<open>save_data\<close> writes. The
  \<^verbatim>\<open>name\<close> and \<^verbatim>\<open>url\<close> of an image record are whatever the API answered, so
  they are documents; \<^verbatim>\<open>localPath\<close> is always a string.
\<close>

record image_data =
  name :: json
  url :: json
  localPath :: string

record item_data =
  images :: "image_data list"

record mod_data =
  mod_name :: string
  items :: "item_data list"

record store =
  mods :: "mod_data list"

text \<open>The dict returned by \<^verbatim>\<open>get_item_details\<close> (keys \<^verbatim>\<open>title\<close>,
  \<^verbatim>\<open>description\<close>, \<^verbatim>\<open>images\<close>; the last is named \<open>image_titles\<close> here, apart
  from the field of \<^typ>\<open>item_data\<close>).\<close>

record item_details =
  title :: json
  description :: json
  image_titles :: "json list"

text \<open>
  What \<^verbatim>\<open>mod_items_data.json\<close> holds on disk: no file, a file that cannot be opened,
  a file that is not JSON, or a document of the shape \<^verbatim>\<open>save_data\<close> writes.
\<close>

datatype file_state = Absent | Unreadable | Malformed | Holds store

datatype request = ApiGet "(string \<times> json) list" | ImageGet string

text \<open>
  The object \<^verbatim>\<open>self\<close> of \<^verbatim>\<open>ModItemsFetcher\<close>, together with what it changes
  outside itself: the JSON file, the image files written, and the HTTP requests issued
  so far (\<open>requests\<close>, \<open>image_files\<close> are bookkeeping of the model).
\<close>

record fetcher =
  download_images :: bool
  data :: store
  processed_count :: nat
  failed_count :: nat
  json_file :: file_state
  image_files :: "(string \<times> string) list"
  requests :: "request list"

text \<open>
  Everything the program does not decide itself: the answers of the wiki API, the bytes
  behind an image URL, the path component \<^verbatim>\<open>urlparse(url).path\<close>, the interpreter's
  \<^verbatim>\<open>hash\<close> of a string, \<^verbatim>\<open>str\<close> of a value that is not a string, whether a
  file can be written, and the order in which the futures of a pool complete: for the
  item futures of a search result and for the image futures of an item, the positions
  of the futures in the order \<^verbatim>\<open>as_completed\<close> yields them.
\<close>

datatype http_result = ConnectionFailed | NotJson | Body json

datatype dump_result = Dumped | OpenFailed | WriteFailed

record world =
  api_get :: "(string \<times> json) list \<Rightarrow> http_result"
  image_get :: "string \<Rightarrow> string option"
  url_path :: "string \<Rightarrow> string"
  py_hash :: "string \<Rightarrow> int"
  py_str :: "json \<Rightarrow> string"
  write_ok :: "string \<Rightarrow> bool"
  json_dump :: "store \<Rightarrow> dump_result"
  item_order :: "json list \<Rightarrow> nat list"
  image_order :: "item_details \<Rightarrow> nat list"

definition empty_store :: store where
  "empty_store = \<lparr>mods = []\<rparr>"

text \<open>\<^verbatim>\<open>load_existing_data\<close>: the body of the \<^verbatim>\<open>try\<close>, then the handler.\<close>

definition load_try :: "file_state \<Rightarrow> store res" where
  "load_try f =
     (case f of
        Absent \<Rightarrow> Inr empty_store
      | Unreadable \<Rightarrow> Inl OSError
      | Malformed \<Rightarrow> Inl JSONDecodeError
      | Holds d \<Rightarrow> Inr d)"

definition load_existing_data :: "fetcher \<Rightarrow> fetcher" where
  "load_existing_data s =
     (case load_try (json_file s) of
        Inr d \<Rightarrow> s\<lparr>data := d\<rparr>
      | Inl e \<Rightarrow> s\<lparr>data := empty_store\<rparr>)"

text \<open>\<^verbatim>\<open>__init__\<close>, given what is on disk.\<close>

definition init :: "bool \<Rightarrow> file_state \<Rightarrow> fetcher" where
  "init dl f =
     load_existing_data
       \<lparr>download_images = dl, data = empty_store, processed_count = 0, failed_count = 0,
        json_file = f, image_files = [], requests = []\<rparr>"

text \<open>\<^verbatim>\<open>save_data\<close>: the file is opened for writing (which empties it) and the whole
  store is dumped; a failure is logged and swallowed.\<close>

definition save_data :: "world \<Rightarrow> fetcher \<Rightarrow> fetcher" where
  "save_data w s =
     (case json_dump w (data s) of
        Dumped \<Rightarrow> s\<lparr>json_file := Holds (data s)\<rparr>
      | OpenFailed \<Rightarrow> s
      | WriteFailed \<Rightarrow> s\<lparr>json_file := Malformed\<rparr>)"

section \<open>The API stages\<close>

text \<open>\<^verbatim>\<open>requests.get(self.api_base, params=params)\<close> followed by
  \<^verbatim>\<open>response.json()\<close>.\<close>

definition requests_get :: "world \<Rightarrow> fetcher \<Rightarrow> (string \<times> json) list \<Rightarrow> fetcher \<times> json res" where
  "requests_get w s params =
     (s\<lparr>requests := requests s @ [ApiGet params]\<rparr>,
      case api_get w params of
        ConnectionFailed \<Rightarrow> Inl RequestException
      | NotJson \<Rightarrow> Inl JSONDecodeError
      | Body d \<Rightarrow> Inr d)"

subsection \<open>Search\<close>

definition search_params :: "string \<Rightarrow> (string \<times> json) list" where
  "search_params mod_name' =
     [(''action'', JStr ''query''), (''format'', JStr ''json''), (''list'', JStr ''search''),
      (''srsearch'', JStr (mod_name' @ '' items'')), (''srnamespace'', JStr ''0''),
      (''srlimit'', JStr ''50'')]"

text \<open>The test and the return inside the \<^verbatim>\<open>try\<close> of \<^verbatim>\<open>get_mod_items\<close>;
  \<open>Inr None\<close> when the test is false and control falls through.\<close>

definition search_results :: "json \<Rightarrow> json option res" where
  "search_results d =
     (case py_in ''query'' d of
        Inl e \<Rightarrow> Inl e
      | Inr b \<Rightarrow>
          if \<not> b then Inr None
          else (case py_getitem d ''query'' of
                  Inl e \<Rightarrow> Inl e
                | Inr q \<Rightarrow>
                    (case py_in ''search'' q of
                       Inl e \<Rightarrow> Inl e
                     | Inr b' \<Rightarrow>
                         if \<not> b' then Inr None
                         else (case py_getitem q ''search'' of
                                 Inl e \<Rightarrow> Inl e
                               | Inr v \<Rightarrow> Inr (Some v)))))"

definition get_mod_items :: "world \<Rightarrow> fetcher \<Rightarrow> string \<Rightarrow> fetcher \<times> json" where
  "get_mod_items w s mod_name' =
     (case requests_get w s (search_params mod_name') of
        (s1, Inl e) \<Rightarrow> (s1, JArr [])
      | (s1, Inr d) \<Rightarrow>
          (case search_results d of
             Inl e \<Rightarrow> (s1, JArr [])
           | Inr None \<Rightarrow> (s1, JArr [])
           | Inr (Some v) \<Rightarrow> (s1, v)))"

subsection \<open>Detail fetch\<close>

definition details_params :: "json \<Rightarrow> (string \<times> json) list" where
  "details_params page_title =
     [(''action'', JStr ''query''), (''format'', JStr ''json''),
      (''prop'', JStr ''images|extracts''), (''titles'', page_title),
      (''exintro'', JBool True), (''explaintext'', JBool True)]"

text \<open>The dict display returned for the first page, its values evaluated in order.\<close>

definition page_details :: "json \<Rightarrow> item_details res" where
  "page_details page =
     (case py_get page ''title'' (JStr []) of
        Inl e \<Rightarrow> Inl e
      | Inr t \<Rightarrow>
          (case py_get page ''extract'' (JStr []) of
             Inl e \<Rightarrow> Inl e
           | Inr x \<Rightarrow>
               (case py_in ''images'' page of
                  Inl e \<Rightarrow> Inl e
                | Inr b \<Rightarrow>
                    if \<not> b then Inr \<lparr>title = t, description = x, image_titles = []\<rparr>
                    else (case py_get page ''images'' (JArr []) of
                            Inl e \<Rightarrow> Inl e
                          | Inr imgs \<Rightarrow>
                              (case py_iter imgs of
                                 Inl e \<Rightarrow> Inl e
                               | Inr xs \<Rightarrow>
                                   (case map_res (\<lambda>img. py_getitem img ''title'') xs of
                                      Inl e \<Rightarrow> Inl e
                                    | Inr ts \<Rightarrow>
                                        Inr \<lparr>title = t, description = x, image_titles = ts\<rparr>))))))"

text \<open>The loop over \<^verbatim>\<open>pages\<close> returns in its first round; with no page it falls
  through (\<open>Inr None\<close>).\<close>

definition first_page_details :: "json \<Rightarrow> item_details option res" where
  "first_page_details d =
     (case py_getitem d ''query'' of
        Inl e \<Rightarrow> Inl e
      | Inr q \<Rightarrow>
          (case py_getitem q ''pages'' of
             Inl e \<Rightarrow> Inl e
           | Inr pages \<Rightarrow>
               (case py_iter pages of
                  Inl e \<Rightarrow> Inl e
                | Inr [] \<Rightarrow> Inr None
                | Inr (page_id # rest) \<Rightarrow>
                    (case py_subscript pages page_id of
                       Inl e \<Rightarrow> Inl e
                     | Inr page \<Rightarrow>
                         (case page_details page of
                            Inl e \<Rightarrow> Inl e
                          | Inr r \<Rightarrow> Inr (Some r))))))"

definition get_item_details :: "world \<Rightarrow> fetcher \<Rightarrow> json \<Rightarrow> fetcher \<times> item_details option" where
  "get_item_details w s page_title =
     (case requests_get w s (details_params page_title) of
        (s1, Inl e) \<Rightarrow> (s1, None)
      | (s1, Inr d) \<Rightarrow>
          (case first_page_details d of
             Inl e \<Rightarrow> (s1, None)
           | Inr None \<Rightarrow> (s1, None)
           | Inr (Some r) \<Rightarrow> (s1, Some r)))"

subsection \<open>Image resolution\<close>

definition image_params :: "json \<Rightarrow> (string \<times> json) list" where
  "image_params image_title =
     [(''action'', JStr ''query''), (''format'', JStr ''json''), (''prop'', JStr ''imageinfo''),
      (''iiprop'', JStr ''url''), (''titles'', image_title)]"

text \<open>The loop over \<^verbatim>\<open>pages\<close> in \<^verbatim>\<open>get_image_url\<close>: the first page that has
  \<^verbatim>\<open>imageinfo\<close> decides.\<close>

fun first_imageinfo_url :: "json \<Rightarrow> json list \<Rightarrow> json option res" where
  "first_imageinfo_url pages [] = Inr None"
| "first_imageinfo_url pages (page_id # rest) =
     (case py_subscript pages page_id of
        Inl e \<Rightarrow> Inl e
      | Inr page \<Rightarrow>
          (case py_in ''imageinfo'' page of
             Inl e \<Rightarrow> Inl e
           | Inr b \<Rightarrow>
               if \<not> b then first_imageinfo_url pages rest
               else (case py_getitem page ''imageinfo'' of
                       Inl e \<Rightarrow> Inl e
                     | Inr info \<Rightarrow>
                         (case py_subscript info (JInt 0) of
                            Inl e \<Rightarrow> Inl e
                          | Inr first \<Rightarrow>
                              (case py_getitem first ''url'' of
                                 Inl e \<Rightarrow> Inl e
                               | Inr u \<Rightarrow> Inr (Some u))))))"

definition image_url_try :: "json \<Rightarrow> json option res" where
  "image_url_try d =
     (case py_getitem d ''query'' of
        Inl e \<Rightarrow> Inl e
      | Inr q \<Rightarrow>
          (case py_getitem q ''pages'' of
             Inl e \<Rightarrow> Inl e
           | Inr pages \<Rightarrow>
               (case py_iter pages of
                  Inl e \<Rightarrow> Inl e
                | Inr ids \<Rightarrow> first_imageinfo_url pages ids)))"

text \<open>The result is a document; \<open>JNull\<close> is Python's \<^verbatim>\<open>None\<close>.\<close>

definition get_image_url :: "world \<Rightarrow> fetcher \<Rightarrow> json \<Rightarrow> fetcher \<times> json" where
  "get_image_url w s image_title =
     (case requests_get w s (image_params image_title) of
        (s1, Inl e) \<Rightarrow> (s1, JNull)
      | (s1, Inr d) \<Rightarrow>
          (case image_url_try d of
             Inl e \<Rightarrow> (s1, JNull)
           | Inr None \<Rightarrow> (s1, JNull)
           | Inr (Some u) \<Rightarrow> (s1, u)))"

subsection \<open>Image download\<close>

definition images_dir :: string where
  "images_dir = ''mod_items_data''"

text \<open>An f-string field: a string as it is, anything else through \<^verbatim>\<open>str\<close>.\<close>

definition format_value :: "world \<Rightarrow> json \<Rightarrow> string" where
  "format_value w v = (case v of JStr t \<Rightarrow> t | _ \<Rightarrow> py_str w v)"

text \<open>\<^verbatim>\<open>safe_name\<close> of \<^verbatim>\<open>download_image\<close>.\<close>

definition safe_name :: "world \<Rightarrow> string \<Rightarrow> json \<Rightarrow> string" where
  "safe_name w u item_name =
     (let extension = splitext_ext (url_path w u);
          extension = (if extension = [] then ''.png'' else extension)
      in sanitize_filename (format_value w item_name @ ''_'' @ show_int (py_hash w u) @ extension))"

text \<open>
  The body of the \<^verbatim>\<open>try\<close> of \<^verbatim>\<open>download_image\<close>. A URL that is not a string makes
  \<^verbatim>\<open>requests.get\<close> raise before anything is sent; \<open>image_get\<close> is \<open>None\<close> when the
  request or \<^verbatim>\<open>raise_for_status\<close> raises.
\<close>

definition download_image_try :: "world \<Rightarrow> fetcher \<Rightarrow> json \<Rightarrow> json \<Rightarrow> fetcher \<times> string res" where
  "download_image_try w s u item_name =
     (case u of
        JStr a \<Rightarrow>
          (let s1 = s\<lparr>requests := requests s @ [ImageGet a]\<rparr>
           in case image_get w a of
                None \<Rightarrow> (s1, Inl RequestException)
              | Some content \<Rightarrow>
                  (let filepath = path_join images_dir (safe_name w a item_name)
                   in if write_ok w filepath
                      then (s1\<lparr>image_files := image_files s1 @ [(filepath, content)]\<rparr>, Inr filepath)
                      else (s1, Inl OSError)))
      | _ \<Rightarrow> (s, Inl RequestException))"

definition download_image :: "world \<Rightarrow> fetcher \<Rightarrow> json \<Rightarrow> json \<Rightarrow> fetcher \<times> string" where
  "download_image w s u item_name =
     (case download_image_try w s u item_name of
        (s1, Inl e) \<Rightarrow> (s1, [])
      | (s1, Inr filepath) \<Rightarrow> (s1, filepath))"

subsection \<open>One image\<close>

definition process_image :: "world \<Rightarrow> fetcher \<Rightarrow> json \<Rightarrow> item_details \<Rightarrow> fetcher \<times> image_data option" where
  "process_image w s image_title details =
     (case get_image_url w s image_title of
        (s1, image_url) \<Rightarrow>
          if truthy image_url
          then (if download_images s1
                then (case download_image w s1 image_url (title details) of
                        (s2, local_path) \<Rightarrow>
                          (s2, Some \<lparr>name = title details, url = image_url, localPath = local_path\<rparr>))
                else (s1, Some \<lparr>name = title details, url = image_url, localPath = []\<rparr>))
          else (s1, None))"

section \<open>One mod\<close>

text \<open>The test in front of \<^verbatim>\<open>image_futures.append\<close>:
  \<^verbatim>\<open>any(ext in image_title.lower() for ext in ['.png', '.jpg', '.gif'])\<close>.\<close>

definition image_exts :: "string list" where
  "image_exts = [''.png'', ''.jpg'', ''.gif'']"

definition has_image_ext :: "string \<Rightarrow> bool" where
  "has_image_ext image_title = list_ex (\<lambda>ext. contains ext (lower image_title)) image_exts"

text \<open>
  \<^verbatim>\<open>as_completed(futures)\<close>: the futures in the order they complete. The order is the
  world's: the positions it names come first, in its order (a position out of range or
  named twice is skipped), the futures it does not name follow. Whatever the world
  says, every future comes exactly once.
\<close>

definition as_completed :: "nat list \<Rightarrow> 'a list \<Rightarrow> 'a list" where
  "as_completed order futures =
     map (\<lambda>i. futures ! i)
       (filter (\<lambda>i. i < length futures) (remdups order)
        @ filter (\<lambda>i. i \<notin> set order) [0..<length futures])"

text \<open>
  The loop over \<^verbatim>\<open>item_details['images']\<close> that fills \<^verbatim>\<open>image_futures\<close>. A title
  that is not a string has no \<^verbatim>\<open>lower\<close>: the loop raises there, after the images
  before it were submitted (the pool still runs them). The list is
  \<^verbatim>\<open>image_futures\<close>, in the order of the \<^verbatim>\<open>append\<close> calls, each future with its
  result.
\<close>

fun submit_images :: "world \<Rightarrow> fetcher \<Rightarrow> item_details \<Rightarrow> json list \<Rightarrow> fetcher \<times> image_data option list res" where
  "submit_images w s details [] = (s, Inr [])"
| "submit_images w s details (image_title # rest) =
     (case image_title of
        JStr t \<Rightarrow>
          if has_image_ext t
          then (case process_image w s image_title details of
                  (s1, r) \<Rightarrow>
                    (case submit_images w s1 details rest of
                       (s2, Inl e) \<Rightarrow> (s2, Inl e)
                     | (s2, Inr rs) \<Rightarrow> (s2, Inr (r # rs))))
          else submit_images w s details rest
      | _ \<Rightarrow> (s, Inl AttributeError))"

text \<open>The image records that came back (\<^verbatim>\<open>if image_data\<close>).\<close>

fun resolved :: "image_data option list \<Rightarrow> image_data list" where
  "resolved [] = []"
| "resolved (None # rs) = resolved rs"
| "resolved (Some r # rs) = r # resolved rs"

text \<open>What is done with one item whose details came back: its image futures are
  submitted and their results taken in the order of completion; \<open>Some\<close> item when it
  is appended to \<^verbatim>\<open>mod_data['items']\<close>.\<close>

definition process_item :: "world \<Rightarrow> fetcher \<Rightarrow> item_details \<Rightarrow> fetcher \<times> item_data option res" where
  "process_item w s details =
     (case submit_images w s details (image_titles details) of
        (s1, Inl e) \<Rightarrow> (s1, Inl e)
      | (s1, Inr image_futures) \<Rightarrow>
          (let results = as_completed (image_order w details) image_futures
           in if resolved results \<noteq> []
              then (s1\<lparr>processed_count := processed_count s1 + 1\<rparr>,
                    Inr (Some \<lparr>images = resolved results\<rparr>))
              else (s1, Inr None)))"

text \<open>The dict comprehension that submits \<^verbatim>\<open>get_item_details\<close> for every search
  result; \<^verbatim>\<open>item['title']\<close> can raise.\<close>

fun submit_items :: "world \<Rightarrow> fetcher \<Rightarrow> json list \<Rightarrow> fetcher \<times> item_details option list res" where
  "submit_items w s [] = (s, Inr [])"
| "submit_items w s (item # rest) =
     (case py_getitem item ''title'' of
        Inl e \<Rightarrow> (s, Inl e)
      | Inr t \<Rightarrow>
          (case get_item_details w s t of
             (s1, r) \<Rightarrow>
               (case submit_items w s1 rest of
                  (s2, Inl e) \<Rightarrow> (s2, Inl e)
                | (s2, Inr rs) \<Rightarrow> (s2, Inr (r # rs)))))"

text \<open>The loop over the item futures, given in the order they complete.\<close>

fun collect_items :: "world \<Rightarrow> fetcher \<Rightarrow> item_details option list \<Rightarrow> fetcher \<times> item_data list res" where
  "collect_items w s [] = (s, Inr [])"
| "collect_items w s (None # rest) =
     collect_items w (s\<lparr>failed_count := failed_count s + 1\<rparr>) rest"
| "collect_items w s (Some details # rest) =
     (case process_item w s details of
        (s1, Inl e) \<Rightarrow> (s1, Inl e)
      | (s1, Inr r) \<Rightarrow>
          (case collect_items w s1 rest of
             (s2, Inl e) \<Rightarrow> (s2, Inl e)
           | (s2, Inr acc) \<Rightarrow> (s2, Inr (case r of None \<Rightarrow> acc | Some item \<Rightarrow> item # acc))))"

text \<open>From the search results to \<^verbatim>\<open>mod_data\<close>: every item future is submitted,
  then the futures are worked off in the order of completion.\<close>

definition build_mod_data :: "world \<Rightarrow> fetcher \<Rightarrow> string \<Rightarrow> json \<Rightarrow> fetcher \<times> mod_data res" where
  "build_mod_data w s n found =
     (case py_iter found of
        Inl e \<Rightarrow> (s, Inl e)
      | Inr its \<Rightarrow>
          (case submit_items w s its of
             (s1, Inl e) \<Rightarrow> (s1, Inl e)
           | (s1, Inr futures) \<Rightarrow>
               (case collect_items w s1 (as_completed (item_order w its) futures) of
                  (s2, Inl e) \<Rightarrow> (s2, Inl e)
                | (s2, Inr item_list) \<Rightarrow> (s2, Inr \<lparr>mod_name = n, items = item_list\<rparr>))))"

text \<open>
  \<^verbatim>\<open>process_mod\<close> in its three parts: the look-up of the name in the store, the
  stages that talk to the network (with the outer handler, which counts a failure), and
  the append followed by \<^verbatim>\<open>save_data\<close>. A mod record is a dict with keys, so it is
  true in \<^verbatim>\<open>if existing_mod\<close>.
\<close>

definition existing_mod :: "fetcher \<Rightarrow> string \<Rightarrow> mod_data option" where
  "existing_mod s n = find (\<lambda>m. mod_name m = n) (mods (data s))"

definition fetch_mod :: "world \<Rightarrow> fetcher \<Rightarrow> string \<Rightarrow> fetcher \<times> mod_data option" where
  "fetch_mod w s n =
     (case get_mod_items w s n of
        (s1, found) \<Rightarrow>
          if \<not> truthy found then (s1\<lparr>failed_count := failed_count s1 + 1\<rparr>, None)
          else (case build_mod_data w s1 n found of
                  (s2, Inl e) \<Rightarrow> (s2\<lparr>failed_count := failed_count s2 + 1\<rparr>, None)
                | (s2, Inr m) \<Rightarrow> (s2, Some m)))"

definition append_mod :: "world \<Rightarrow> fetcher \<Rightarrow> mod_data \<Rightarrow> fetcher" where
  "append_mod w s m = save_data w (s\<lparr>data := (data s)\<lparr>mods := mods (data s) @ [m]\<rparr>\<rparr>)"

definition process_mod :: "world \<Rightarrow> fetcher \<Rightarrow> string \<Rightarrow> fetcher \<times> bool" where
  "process_mod w s n =
     (case existing_mod s n of
        Some m \<Rightarrow> (s, True)
      | None \<Rightarrow>
          (case fetch_mod w s n of
             (s1, None) \<Rightarrow> (s1, False)
           | (s1, Some m) \<Rightarrow> (append_mod w s1 m, True)))"

section \<open>Several mods at once\<close>

text \<open>
  \<^verbatim>\<open>main\<close> submits one \<^verbatim>\<open>process_mod\<close> per name to a pool of worker threads that
  share the fetcher. A task is where one call stands: submitted, past the look-up,
  holding its \<^verbatim>\<open>mod_data\<close>, or returned. Between the look-up and the append the call
  waits on the network, so other calls run in between; a schedule names the task that
  takes the next step.
\<close>

datatype task = Submitted string | Searching string | Built mod_data | Returned bool

fun task_step :: "world \<Rightarrow> fetcher \<Rightarrow> task \<Rightarrow> fetcher \<times> task" where
  "task_step w s (Submitted n) =
     (case existing_mod s n of Some m \<Rightarrow> (s, Returned True) | None \<Rightarrow> (s, Searching n))"
| "task_step w s (Searching n) =
     (case fetch_mod w s n of
        (s1, None) \<Rightarrow> (s1, Returned False)
      | (s1, Some m) \<Rightarrow> (s1, Built m))"
| "task_step w s (Built m) = (append_mod w s m, Returned True)"
| "task_step w s (Returned b) = (s, Returned b)"

fun run_schedule :: "world \<Rightarrow> fetcher \<Rightarrow> task list \<Rightarrow> nat list \<Rightarrow> fetcher \<times> task list" where
  "run_schedule w s ts [] = (s, ts)"
| "run_schedule w s ts (i # sched) =
     (if i < length ts
      then (case task_step w s (ts ! i) of (s1, t) \<Rightarrow> run_schedule w s1 (ts[i := t]) sched)
      else run_schedule w s ts sched)"





section \<open>What a stage may change\<close>

text \<open>The stages in front of the append change counters and the bookkeeping only: the
  store in memory, the JSON file and the download switch stay as they are.\<close>

definition same_store :: "fetcher \<Rightarrow> fetcher \<Rightarrow> bool" where
  "same_store s s' =
     (data s' = data s \<and> json_file s' = json_file s \<and> download_images s' = download_images s)"

section \<open>What the specification says, in its own words\<close>

text \<open>A title that ends in one of the extensions, compared in lower case: the filter
  the specification describes, to be compared with \<open>has_image_ext\<close>.\<close>

definition ends_with_image_ext :: "string \<Rightarrow> bool" where
  "ends_with_image_ext image_title = list_ex (\<lambda>ext. suffix ext (lower image_title)) image_exts"


section \<open>Invariants of the store\<close>

text \<open>Every item in the store has at least one image record, and every image record
  has a URL that Python takes for true (a resolved one).\<close>

definition every_item_has_image :: "store \<Rightarrow> bool" where
  "every_item_has_image d =
     (\<forall>m\<in>set (mods d). \<forall>i\<in>set (items m). images i \<noteq> [] \<and> (\<forall>r\<in>set (images i). truthy (url r)))"


text \<open>What one item future contributes to \<^verbatim>\<open>mod_data['items']\<close>: nothing when the
  details did not come back, else the item that \<open>process_item\<close> makes of them, if
  any.\<close>

definition kept_item :: "world \<Rightarrow> fetcher \<Rightarrow> item_details option \<Rightarrow> item_data list" where
  "kept_item w s d =
     (case d of
        None \<Rightarrow> []
      | Some det \<Rightarrow> (case snd (process_item w s det) of Inr (Some item) \<Rightarrow> [item] | _ \<Rightarrow> []))"





text \<open>The title a search result is looked up by (\<^verbatim>\<open>item['title']\<close>), and the details
  of the search results in the order their futures complete.\<close>

definition item_title :: "json \<Rightarrow> json" where
  "item_title item = (case py_getitem item ''title'' of Inl e \<Rightarrow> JNull | Inr t \<Rightarrow> t)"

definition completed_details :: "world \<Rightarrow> fetcher \<Rightarrow> json list \<Rightarrow> item_details option list" where
  "completed_details w s its =
     as_completed (item_order w its) (map (\<lambda>item. snd (get_item_details w s (item_title item))) its)"

section \<open>A small world to run the program in\<close>

text \<open>
  A wiki that knows one mod: the search for \<^verbatim>\<open>AppleSkin\<close> finds the pages Apple and
  Stick (the search for \<^verbatim>\<open>Nothing\<close> finds no page, any other request fails), the
  details of Apple list a PNG and an SVG, the details of Stick cannot be fetched, and
  the PNG resolves to a URL whose path has no extension. Of two futures the second
  completes first.
\<close>

definition sample_search :: json where
  "sample_search =
     JObj [(''query'', JObj [(''search'',
       JArr [JObj [(''title'', JStr ''Apple'')], JObj [(''title'', JStr ''Stick'')]])])]"

definition sample_apple :: "(string \<times> json) list" where
  "sample_apple =
     [(''title'', JStr ''Apple''), (''extract'', JStr ''A fruit.''),
      (''images'', JArr [JObj [(''title'', JStr ''File:Apple.png'')],
                         JObj [(''title'', JStr ''File:Apple.svg'')]])]"

definition sample_page :: json where
  "sample_page = JObj [(''query'', JObj [(''pages'', JObj [(''101'', JObj sample_apple)])])]"

definition sample_imageinfo :: json where
  "sample_imageinfo =
     JObj [(''query'', JObj [(''pages'', JObj [(''7'',
       JObj [(''imageinfo'', JArr [JObj [(''url'', JStr ''https://img.example/a/Apple'')]])])])])]"

definition sample_world :: world where
  "sample_world =
     \<lparr>api_get = (\<lambda>ps.
        if ps = search_params ''AppleSkin'' then Body sample_search
        else if ps = search_params ''Nothing'' then Body (JObj [(''query'', JObj [(''search'', JArr [])])])
        else if ps = details_params (JStr ''Apple'') then Body sample_page
        else if ps = image_params (JStr ''File:Apple.png'') then Body sample_imageinfo
        else ConnectionFailed),
      image_get = (\<lambda>u. if u = ''https://img.example/a/Apple'' then Some ''PNG'' else None),
      url_path = (\<lambda>u. drop 19 u),
      py_hash = (\<lambda>u. - 42),
      py_str = (\<lambda>v. ''None''),
      write_ok = (\<lambda>p. True),
      json_dump = (\<lambda>d. Dumped),
      item_order = (\<lambda>its. [1, 0]),
      image_order = (\<lambda>details. [1, 0])\<rparr>"

text \<open>The fetcher right after \<^verbatim>\<open>__init__\<close> when there is no JSON file yet.\<close>

definition fresh :: "bool \<Rightarrow> fetcher" where
  "fresh dl = init dl Absent"

text \<open>A fetcher whose store, in memory and on disk, already has a record for
  \<^verbatim>\<open>AppleSkin\<close>.\<close>

definition stocked :: fetcher where
  "stocked =
     (fresh False)\<lparr>data := \<lparr>mods = [\<lparr>mod_name = ''AppleSkin'', items = []\<rparr>]\<rparr>,
                     json_file := Holds \<lparr>mods = [\<lparr>mod_name = ''AppleSkin'', items = []\<rparr>]\<rparr>\<rparr>"

text \<open>The details of Apple as the sample world answers them, details whose only image
  does not resolve, the image record of Apple with a given local path, and the sample
  world with every image download failing.\<close>

definition sample_details :: item_details where
  "sample_details =
     \<lparr>title = JStr ''Apple'', description = JStr ''A fruit.'',
      image_titles = [JStr ''File:Apple.png'', JStr ''File:Apple.svg'']\<rparr>"

definition unresolved_details :: item_details where
  "unresolved_details =
     \<lparr>title = JStr ''Stick'', description = JStr [], image_titles = [JStr ''File:Stick.png'']\<rparr>"

definition sample_image :: "string \<Rightarrow> image_data" where
  "sample_image p =
     \<lparr>name = JStr ''Apple'', url = JStr ''https://img.example/a/Apple'', localPath = p\<rparr>"


text \<open>
  A wiki with odd answers: the search for \<^verbatim>\<open>Odd\<close> has a string where the result list
  should be; for the title \<^verbatim>\<open>Nope\<close>, which has no page, the details are the entry
  the MediaWiki API sends for a missing title (page id \<^verbatim>\<open>-1\<close>, marked \<^verbatim>\<open>missing\<close>);
  \<^verbatim>\<open>Void\<close> has an empty \<^verbatim>\<open>pages\<close> object, \<^verbatim>\<open>Bare\<close> has no \<^verbatim>\<open>pages\<close> at all, and
  every other answer is the empty object.
\<close>

definition missing_page :: json where
  "missing_page =
     JObj [(''batchcomplete'', JStr []),
           (''query'', JObj [(''pages'', JObj [(''-1'',
              JObj [(''ns'', JInt 0), (''title'', JStr ''Nope''), (''missing'', JStr [])])])])]"

definition odd_world :: world where
  "odd_world =
     sample_world\<lparr>api_get := (\<lambda>ps.
        if ps = search_params ''Odd''
        then Body (JObj [(''query'', JObj [(''search'', JStr ''abc'')])])
        else if ps = details_params (JStr ''Nope'') then Body missing_page
        else if ps = details_params (JStr ''Void'')
        then Body (JObj [(''query'', JObj [(''pages'', JObj [])])])
        else if ps = details_params (JStr ''Bare'') then Body (JObj [(''query'', JObj [])])
        else Body (JObj []))\<rparr>"

section \<open>Properties\<close>

lemma replace_char_set:
  "old \<noteq> new \<Longrightarrow> old \<notin> set (replace_char old new s)"
  by (auto simp: replace_char_def)

lemma replace_char_keeps_absent:
  "c \<notin> set s \<Longrightarrow> c \<noteq> new \<Longrightarrow> c \<notin> set (replace_char old new s)"
  by (auto simp: replace_char_def)

lemma fold_replace_absent:
  "CHR ''_'' \<notin> set cs \<Longrightarrow> c \<in> set cs \<or> c \<notin> set s \<Longrightarrow> c \<noteq> CHR ''_''
     \<Longrightarrow> c \<notin> set (fold (\<lambda>char name. replace_char char CHR ''_'' name) cs s)"
proof (induction cs arbitrary: s)
  case Nil
  then show ?case by simp
next
  case (Cons a cs)
  show ?case
  proof (cases "c = a")
    case True
    then have "c \<notin> set (replace_char a CHR ''_'' s)"
      using Cons.prems(3) by (simp add: replace_char_set)
    then show ?thesis
      using Cons.IH [of "replace_char a CHR ''_'' s"] Cons.prems by simp
  next
    case False
    show ?thesis
    proof (cases "c \<in> set cs")
      case True
      then show ?thesis
        using Cons.IH [of "replace_char a CHR ''_'' s"] Cons.prems by simp
    next
      case False
      with \<open>c \<noteq> a\<close> Cons.prems have "c \<notin> set s" by simp
      then have "c \<notin> set (replace_char a CHR ''_'' s)"
        using Cons.prems(3) by (simp add: replace_char_keeps_absent)
      then show ?thesis
        using Cons.IH [of "replace_char a CHR ''_'' s"] Cons.prems by simp
    qed
  qed
qed

lemma sanitize_filename_clean:
  "c \<in> set invalid_chars \<Longrightarrow> c \<notin> set (sanitize_filename filename)"
proof -
  assume c: "c \<in> set invalid_chars"
  have u: "CHR ''_'' \<notin> set invalid_chars" by (simp add: invalid_chars_def)
  with c have "c \<noteq> CHR ''_''" by auto
  with c u have "c \<notin> set (fold (\<lambda>char name. replace_char char CHR ''_'' name) invalid_chars filename)"
    by (intro fold_replace_absent) auto
  then show ?thesis
    unfolding sanitize_filename_def by (auto dest: in_set_takeD)
qed

lemma sanitize_filename_length: "length (sanitize_filename filename) \<le> 255"
  by (simp add: sanitize_filename_def)


lemma show_nat_example: "show_nat 42 = ''42''"
  by (simp add: digit_char_def)

subsection \<open>File names of downloaded images\<close>

text \<open>
  C7. Whatever string \<^verbatim>\<open>sanitize_filename\<close> is given, its result has none of the
  characters of \<^verbatim>\<open>invalid_chars\<close> and at most 255 characters. When
  \<^verbatim>\<open>download_image\<close> gets through its \<^verbatim>\<open>try\<close>, the path it returns is the images
  directory joined with the sanitized string made of the item title, an underscore, the
  hash of the URL and the extension of the URL's path, which is \<^verbatim>\<open>.png\<close> when the path
  has none.
\<close>

theorem filename_safe:
  "set (sanitize_filename filename) \<inter> set invalid_chars = {}
   \<and> length (sanitize_filename filename) \<le> 255
   \<and> (download_image_try w s (JStr u) item_name = (s', Inr filepath) \<longrightarrow>
        filepath = path_join images_dir
          (sanitize_filename
            (format_value w item_name @ ''_'' @ show_int (py_hash w u)
               @ (if splitext_ext (url_path w u) = [] then ''.png''
                  else splitext_ext (url_path w u)))))"
proof -
  have a: "set (sanitize_filename filename) \<inter> set invalid_chars = {}"
    using sanitize_filename_clean by blast
  have b: "download_image_try w s (JStr u) item_name = (s', Inr filepath) \<longrightarrow>
        filepath = path_join images_dir
          (sanitize_filename
            (format_value w item_name @ ''_'' @ show_int (py_hash w u)
               @ (if splitext_ext (url_path w u) = [] then ''.png''
                  else splitext_ext (url_path w u))))"
    by (auto simp: download_image_try_def safe_name_def Let_def split: option.splits if_splits)
  from a b show ?thesis by (simp add: sanitize_filename_length)
qed

theorem filename_safe_witness:
  "download_image_try sample_world (fresh True) (JStr ''https://img.example/a/Apple'')
       (JStr ''Red: Apple?'')
     = ((fresh True)\<lparr>image_files := [(''mod_items_data/Red_ Apple__-42.png'', ''PNG'')],
                      requests := [ImageGet ''https://img.example/a/Apple'']\<rparr>,
        Inr ''mod_items_data/Red_ Apple__-42.png'')
   \<and> ''mod_items_data/Red_ Apple__-42.png'' = path_join images_dir
          (sanitize_filename
            (format_value sample_world (JStr ''Red: Apple?'') @ ''_''
               @ show_int (py_hash sample_world ''https://img.example/a/Apple'')
               @ (if splitext_ext (url_path sample_world ''https://img.example/a/Apple'') = []
                  then ''.png''
                  else splitext_ext (url_path sample_world ''https://img.example/a/Apple''))))"
  using filename_safe [of "''Red: Apple?''" sample_world "fresh True"
      "''https://img.example/a/Apple''" "JStr ''Red: Apple?''"]
  by (simp add: download_image_try_def sample_world_def fresh_def init_def
      load_existing_data_def load_try_def empty_store_def safe_name_def Let_def path_join_def
      images_dir_def sanitize_filename_def invalid_chars_def replace_char_def format_value_def
      show_int_def show_nat_example digit_char_def splitext_ext_def rfind_def)

subsection \<open>Facts about the stages\<close>

lemma existing_mod_Some_iff:
  "(existing_mod s n \<noteq> None) = (n \<in> mod_name ` set (mods (data s)))"
  by (auto simp: existing_mod_def find_None_iff)

lemma get_mod_items_state:
  "fst (get_mod_items w s n) = s\<lparr>requests := requests s @ [ApiGet (search_params n)]\<rparr>"
  by (simp add: get_mod_items_def requests_get_def split: http_result.splits sum.splits option.splits)

lemma py_getitem_in: "py_getitem d k = Inr v \<Longrightarrow> py_in k d = Inr True"
  by (cases d) (auto simp: py_getitem_def split: option.splits dest: map_of_SomeD intro: rev_image_eqI)

lemma search_results_Some:
  "(search_results d = Inr (Some v)) = (\<exists>q. py_getitem d ''query'' = Inr q \<and> py_getitem q ''search'' = Inr v)"
  by (auto simp: search_results_def split: sum.splits if_splits dest: py_getitem_in)

lemma get_mod_items_result:
  "snd (get_mod_items w s n) =
     (case api_get w (search_params n) of
        Body d \<Rightarrow> (case search_results d of Inr (Some v) \<Rightarrow> v | _ \<Rightarrow> JArr [])
      | _ \<Rightarrow> JArr [])"
  by (simp add: get_mod_items_def requests_get_def split: http_result.splits sum.splits option.splits)


lemma get_item_details_result:
  "snd (get_item_details w s t) =
     (case api_get w (details_params t) of
        Body d \<Rightarrow> (case first_page_details d of Inr (Some r) \<Rightarrow> Some r | _ \<Rightarrow> None)
      | _ \<Rightarrow> None)"
  by (simp add: get_item_details_def requests_get_def split: http_result.splits sum.splits option.splits)



lemma suffix_contains: "suffix xs ys \<Longrightarrow> contains xs ys"
proof (induction ys)
  case Nil
  then show ?case by simp
next
  case (Cons y ys)
  then show ?case
    by (auto simp: suffix_Cons)
qed

lemma ends_with_has_image_ext: "ends_with_image_ext t \<Longrightarrow> has_image_ext t"
  by (auto simp: ends_with_image_ext_def has_image_ext_def list_ex_iff intro: suffix_contains)

lemma same_store_refl: "same_store s s"
  by (simp add: same_store_def)

lemma same_store_trans: "same_store s s1 \<Longrightarrow> same_store s1 s2 \<Longrightarrow> same_store s s2"
  by (simp add: same_store_def)

lemma same_store_failed: "same_store s s1 \<Longrightarrow> same_store s (s1\<lparr>failed_count := k\<rparr>)"
  by (simp add: same_store_def)

lemma same_store_processed: "same_store s s1 \<Longrightarrow> same_store s (s1\<lparr>processed_count := k\<rparr>)"
  by (simp add: same_store_def)

lemma requests_get_same: "requests_get w s ps = (s1, r) \<Longrightarrow> same_store s s1"
  by (auto simp: requests_get_def same_store_def)

lemma get_mod_items_same: "get_mod_items w s n = (s1, r) \<Longrightarrow> same_store s s1"
  by (auto simp: get_mod_items_def split: prod.splits sum.splits option.splits dest: requests_get_same)

lemma get_item_details_same: "get_item_details w s t = (s1, r) \<Longrightarrow> same_store s s1"
  by (auto simp: get_item_details_def split: prod.splits sum.splits option.splits dest: requests_get_same)

lemma get_image_url_same: "get_image_url w s t = (s1, r) \<Longrightarrow> same_store s s1"
  by (auto simp: get_image_url_def split: prod.splits sum.splits option.splits dest: requests_get_same)

lemma download_image_try_same: "download_image_try w s u n = (s1, r) \<Longrightarrow> same_store s s1"
  by (auto simp: download_image_try_def same_store_def Let_def split: json.splits option.splits if_splits)

lemma download_image_same: "download_image w s u n = (s1, r) \<Longrightarrow> same_store s s1"
  by (auto simp: download_image_def split: prod.splits sum.splits dest: download_image_try_same)

lemma process_image_same: "process_image w s t det = (s1, r) \<Longrightarrow> same_store s s1"
  by (auto simp: process_image_def split: prod.splits if_splits
      dest: get_image_url_same download_image_same intro: same_store_trans)

lemma submit_images_same: "submit_images w s det ts = (s1, r) \<Longrightarrow> same_store s s1"
proof (induction ts arbitrary: s s1 r)
  case Nil
  then show ?case by (simp add: same_store_refl)
next
  case (Cons t ts)
  show ?case
  proof (cases t)
    case (JStr x)
    show ?thesis
    proof (cases "has_image_ext x")
      case True
      obtain sa ra where p: "process_image w s t det = (sa, ra)" by (cases "process_image w s t det")
      obtain sb rb where q: "submit_images w sa det ts = (sb, rb)" by (cases "submit_images w sa det ts")
      from Cons.prems JStr True p q have "s1 = sb"
        by (auto split: sum.splits)
      with process_image_same [OF p] Cons.IH [OF q] show ?thesis
        by (blast intro: same_store_trans)
    next
      case False
      with Cons JStr show ?thesis by simp
    qed
  qed (use Cons.prems in \<open>auto simp: same_store_refl\<close>)
qed

lemma as_completed_set: "set (as_completed order xs) = set xs"
proof -
  have "set (filter (\<lambda>i. i < length xs) (remdups order)
             @ filter (\<lambda>i. i \<notin> set order) [0..<length xs]) = {i. i < length xs}"
    by auto
  then have "set (as_completed order xs) = (\<lambda>i. xs ! i) ` {i. i < length xs}"
    unfolding as_completed_def set_map by (rule arg_cong)
  also have "\<dots> = set xs"
    by (auto simp: set_conv_nth)
  finally show ?thesis .
qed

lemma resolved_set: "set (resolved rs) = {r. Some r \<in> set rs}"
  by (induction rs rule: resolved.induct) auto

lemma resolved_as_completed_set: "set (resolved (as_completed order rs)) = set (resolved rs)"
  by (simp add: resolved_set as_completed_set)

lemma resolved_as_completed_empty: "(resolved (as_completed order rs) = []) = (resolved rs = [])"
  using resolved_as_completed_set [of order rs] set_empty by metis

lemma process_item_same: "process_item w s det = (s1, r) \<Longrightarrow> same_store s s1"
  by (auto simp: process_item_def Let_def split: prod.splits sum.splits if_splits
      dest!: submit_images_same intro: same_store_processed)

lemma submit_items_same: "submit_items w s its = (s1, r) \<Longrightarrow> same_store s s1"
proof (induction its arbitrary: s s1 r)
  case Nil
  then show ?case by (simp add: same_store_refl)
next
  case (Cons it its)
  show ?case
  proof (cases "py_getitem it ''title''")
    case (Inl e)
    with Cons.prems show ?thesis by (simp add: same_store_refl)
  next
    case (Inr t)
    obtain sa ra where p: "get_item_details w s t = (sa, ra)" by (cases "get_item_details w s t")
    obtain sb rb where q: "submit_items w sa its = (sb, rb)" by (cases "submit_items w sa its")
    from Cons.prems Inr p q have "s1 = sb" by (auto split: sum.splits)
    with get_item_details_same [OF p] Cons.IH [OF q] show ?thesis
      by (blast intro: same_store_trans)
  qed
qed

lemma collect_items_same: "collect_items w s ds = (s1, r) \<Longrightarrow> same_store s s1"
proof (induction w s ds arbitrary: s1 r rule: collect_items.induct)
  case (1 w s)
  then show ?case by (simp add: same_store_refl)
next
  case (2 w s rest)
  from "2.prems" have "collect_items w (s\<lparr>failed_count := failed_count s + 1\<rparr>) rest = (s1, r)"
    by simp
  from "2.IH" [OF this] show ?case by (simp add: same_store_def)
next
  case (3 w s details rest)
  obtain sa ra where p: "process_item w s details = (sa, ra)" by (cases "process_item w s details")
  show ?case
  proof (cases ra)
    case (Inl e)
    with "3.prems" p have "s1 = sa" by simp
    with process_item_same [OF p] show ?thesis by simp
  next
    case (Inr x)
    obtain sb rb where q: "collect_items w sa rest = (sb, rb)" by (cases "collect_items w sa rest")
    from "3.prems" p Inr q have "s1 = sb" by (auto split: sum.splits)
    with process_item_same [OF p] "3.IH" [OF p [symmetric] Inr q] show ?thesis
      by (blast intro: same_store_trans)
  qed
qed

lemma build_mod_data_same: "build_mod_data w s n found = (s1, r) \<Longrightarrow> same_store s s1"
  by (auto simp: build_mod_data_def same_store_refl split: prod.splits sum.splits
      dest!: submit_items_same collect_items_same intro: same_store_trans)

lemma build_mod_data_name: "build_mod_data w s n found = (s1, Inr m) \<Longrightarrow> mod_name m = n"
  by (auto simp: build_mod_data_def split: prod.splits sum.splits)

lemma fetch_mod_same: "fetch_mod w s n = (s1, r) \<Longrightarrow> same_store s s1"
  by (auto simp: fetch_mod_def split: prod.splits sum.splits if_splits
      dest!: get_mod_items_same build_mod_data_same intro: same_store_trans same_store_failed)

lemma fetch_mod_name: "fetch_mod w s n = (s1, Some m) \<Longrightarrow> mod_name m = n"
  by (auto simp: fetch_mod_def split: prod.splits sum.splits if_splits dest: build_mod_data_name)

lemma append_mod_data: "data (append_mod w s m) = \<lparr>mods = mods (data s) @ [m]\<rparr>"
  by (simp add: append_mod_def save_data_def split: dump_result.splits)





text \<open>The result of a stage does not depend on the counters and the bookkeeping.\<close>

lemma requests_get_indep: "snd (requests_get w s ps) = snd (requests_get w s' ps)"
  by (simp add: requests_get_def)

lemma get_image_url_indep: "snd (get_image_url w s t) = snd (get_image_url w s' t)"
  by (simp add: get_image_url_def requests_get_def split: http_result.splits sum.splits option.splits)

lemma download_image_try_indep:
  "snd (download_image_try w s u n) = snd (download_image_try w s' u n)"
  by (simp add: download_image_try_def Let_def split: json.splits option.splits)



lemma download_image_result:
  "snd (download_image w s u n) =
     (case snd (download_image_try w s u n) of Inl e \<Rightarrow> [] | Inr filepath \<Rightarrow> filepath)"
  by (simp add: download_image_def split: prod.splits sum.splits)

lemma process_image_result:
  "snd (process_image w s t det) =
     (if truthy (snd (get_image_url w s t))
      then Some \<lparr>name = title det, url = snd (get_image_url w s t),
                 localPath = (if download_images s
                              then (case snd (download_image_try w s (snd (get_image_url w s t)) (title det)) of
                                      Inl e \<Rightarrow> [] | Inr filepath \<Rightarrow> filepath)
                              else [])\<rparr>
      else None)"
proof -
  obtain s1 u where g: "get_image_url w s t = (s1, u)" by (cases "get_image_url w s t")
  then have dl: "download_images s1 = download_images s"
    using get_image_url_same [OF g] by (simp add: same_store_def)
  have "snd (download_image w s1 u (title det)) =
          (case snd (download_image_try w s u (title det)) of Inl e \<Rightarrow> [] | Inr filepath \<Rightarrow> filepath)"
    using download_image_try_indep [of w s1 u "title det" s] by (simp add: download_image_result)
  with g dl show ?thesis
    by (auto simp: process_image_def split: prod.splits)
qed

lemma process_image_indep:
  "download_images s = download_images s' \<Longrightarrow>
   snd (process_image w s t det) = snd (process_image w s' t det)"
  using get_image_url_indep [of w s t s']
    download_image_try_indep [of w s "snd (get_image_url w s' t)" "title det" s']
  by (simp add: process_image_result)

lemma process_image_ok:
  "snd (process_image w s t det) = Some r \<Longrightarrow>
   truthy (url r) \<and> (\<not> download_images s \<longrightarrow> localPath r = [])"
  by (auto simp: process_image_result split: if_splits)



lemma submit_images_ok:
  "submit_images w s det ts = (s1, Inr rs) \<Longrightarrow>
   \<forall>r\<in>set (resolved rs). truthy (url r) \<and> (\<not> download_images s \<longrightarrow> localPath r = [])"
proof (induction ts arbitrary: s s1 rs)
  case Nil
  then show ?case by simp
next
  case (Cons t ts)
  show ?case
  proof (cases t)
    case (JStr x)
    show ?thesis
    proof (cases "has_image_ext x")
      case True
      obtain sa ra where p: "process_image w s t det = (sa, ra)" by (cases "process_image w s t det")
      obtain sb rb where q: "submit_images w sa det ts = (sb, rb)" by (cases "submit_images w sa det ts")
      from Cons.prems JStr True p q obtain rs' where rb: "rb = Inr rs'" and rs: "rs = ra # rs'"
        by (auto split: sum.splits)
      from process_image_same [OF p] have dl: "download_images sa = download_images s"
        by (simp add: same_store_def)
      from Cons.IH [OF q [unfolded rb]] dl
      have tail: "\<forall>r\<in>set (resolved rs'). truthy (url r) \<and> (\<not> download_images s \<longrightarrow> localPath r = [])"
        by simp
      show ?thesis
      proof (cases ra)
        case None
        with rs tail show ?thesis by simp
      next
        case (Some r)
        with p have "snd (process_image w s t det) = Some r" by simp
        from process_image_ok [OF this] rs Some tail show ?thesis by simp
      qed
    next
      case False
      with Cons JStr show ?thesis by simp
    qed
  qed (use Cons.prems in auto)
qed



lemma submit_images_resolved_iff:
  "submit_images w s det ts = (s1, Inr rs) \<Longrightarrow>
   (resolved rs \<noteq> []) =
     (\<exists>t\<in>set ts. (\<exists>x. t = JStr x \<and> has_image_ext x) \<and> truthy (snd (get_image_url w s t)))"
proof (induction ts arbitrary: s s1 rs)
  case Nil
  then show ?case by simp
next
  case (Cons t ts)
  show ?case
  proof (cases t)
    case (JStr x)
    show ?thesis
    proof (cases "has_image_ext x")
      case True
      obtain sa ra where p: "process_image w s t det = (sa, ra)" by (cases "process_image w s t det")
      obtain sb rb where q: "submit_images w sa det ts = (sb, rb)" by (cases "submit_images w sa det ts")
      from Cons.prems JStr True p q obtain rs' where rb: "rb = Inr rs'" and rs: "rs = ra # rs'"
        by (auto split: sum.splits)
      have "(resolved rs' \<noteq> []) =
         (\<exists>t\<in>set ts. (\<exists>x. t = JStr x \<and> has_image_ext x) \<and> truthy (snd (get_image_url w sa t)))"
        using Cons.IH [OF q [unfolded rb]] .
      then have tail: "(resolved rs' \<noteq> []) =
         (\<exists>t\<in>set ts. (\<exists>x. t = JStr x \<and> has_image_ext x) \<and> truthy (snd (get_image_url w s t)))"
        using get_image_url_indep [of w sa _ s] by simp
      from p have "(ra \<noteq> None) = truthy (snd (get_image_url w s t))"
        using process_image_result [of w s t det] by (auto split: if_splits)
      with rs tail JStr True show ?thesis
        by (cases ra) auto
    next
      case False
      with Cons JStr show ?thesis by simp
    qed
  qed (use Cons.prems in auto)
qed



lemma submit_images_indep:
  "download_images s = download_images s' \<Longrightarrow>
   snd (submit_images w s det ts) = snd (submit_images w s' det ts)"
proof (induction ts arbitrary: s s')
  case Nil
  then show ?case by simp
next
  case (Cons t ts)
  show ?case
  proof (cases t)
    case (JStr x)
    show ?thesis
    proof (cases "has_image_ext x")
      case True
      obtain sa ra where p: "process_image w s t det = (sa, ra)" by (cases "process_image w s t det")
      obtain sa' ra' where p': "process_image w s' t det = (sa', ra')" by (cases "process_image w s' t det")
      obtain sb rb where q: "submit_images w sa det ts = (sb, rb)" by (cases "submit_images w sa det ts")
      obtain sb' rb' where q': "submit_images w sa' det ts = (sb', rb')" by (cases "submit_images w sa' det ts")
      from process_image_indep [OF Cons.prems, of w t det] p p' have ra: "ra' = ra" by simp
      from process_image_same [OF p] process_image_same [OF p'] Cons.prems
      have "download_images sa = download_images sa'" by (simp add: same_store_def)
      from Cons.IH [OF this] q q' have rb: "rb' = rb" by simp
      have l: "snd (submit_images w s det (t # ts)) = (case rb of Inl e \<Rightarrow> Inl e | Inr rs \<Rightarrow> Inr (ra # rs))"
        using JStr True p q by (simp split: sum.splits)
      have r: "snd (submit_images w s' det (t # ts)) = (case rb' of Inl e \<Rightarrow> Inl e | Inr rs \<Rightarrow> Inr (ra' # rs))"
        using JStr True p' q' by (simp split: sum.splits)
      show ?thesis by (simp only: l r ra rb)
    next
      case False
      with Cons.IH [OF Cons.prems] JStr show ?thesis by simp
    qed
  qed simp_all
qed

lemma process_item_indep:
  "download_images s = download_images s' \<Longrightarrow>
   snd (process_item w s det) = snd (process_item w s' det)"
proof -
  assume "download_images s = download_images s'"
  from submit_images_indep [OF this, of w det "image_titles det"]
  have e: "snd (submit_images w s det (image_titles det)) = snd (submit_images w s' det (image_titles det))" .
  obtain sa ra where p: "submit_images w s det (image_titles det) = (sa, ra)"
    by (cases "submit_images w s det (image_titles det)")
  obtain sa' ra' where p': "submit_images w s' det (image_titles det) = (sa', ra')"
    by (cases "submit_images w s' det (image_titles det)")
  from e p p' have "ra' = ra" by simp
  with p p' show ?thesis
    by (cases ra) (simp_all add: process_item_def Let_def)
qed

lemma process_item_kept_iff:
  "process_item w s det = (s1, Inr r) \<Longrightarrow>
   (r \<noteq> None) =
     (\<exists>t\<in>set (image_titles det). (\<exists>x. t = JStr x \<and> has_image_ext x) \<and> truthy (snd (get_image_url w s t)))"
proof -
  assume a: "process_item w s det = (s1, Inr r)"
  obtain sa ra where p: "submit_images w s det (image_titles det) = (sa, ra)"
    by (cases "submit_images w s det (image_titles det)")
  with a obtain rs where ra: "ra = Inr rs" by (cases ra) (simp_all add: process_item_def)
  from a p ra have "(r \<noteq> None) = (resolved (as_completed (image_order w det) rs) \<noteq> [])"
    by (auto simp: process_item_def Let_def split: if_splits)
  then have "(r \<noteq> None) = (resolved rs \<noteq> [])"
    by (simp add: resolved_as_completed_empty)
  with submit_images_resolved_iff [OF p [unfolded ra]] show ?thesis by simp
qed

lemma process_item_ok:
  "process_item w s det = (s1, Inr (Some item)) \<Longrightarrow>
   images item \<noteq> [] \<and> (\<forall>r\<in>set (images item). truthy (url r) \<and> (\<not> download_images s \<longrightarrow> localPath r = []))"
proof -
  assume a: "process_item w s det = (s1, Inr (Some item))"
  obtain sa ra where p: "submit_images w s det (image_titles det) = (sa, ra)"
    by (cases "submit_images w s det (image_titles det)")
  with a obtain rs where ra: "ra = Inr rs" by (cases ra) (simp_all add: process_item_def)
  from a p ra have "images item = resolved (as_completed (image_order w det) rs)
      \<and> resolved (as_completed (image_order w det) rs) \<noteq> []"
    by (auto simp: process_item_def Let_def split: if_splits)
  with submit_images_ok [OF p [unfolded ra]] show ?thesis
    by (simp add: resolved_as_completed_set)
qed

lemma kept_item_indep:
  "download_images s = download_images s' \<Longrightarrow> kept_item w s d = kept_item w s' d"
  using process_item_indep [of s s' w] by (simp add: kept_item_def split: option.splits)

lemma collect_items_kept:
  "collect_items w s ds = (s1, Inr acc) \<Longrightarrow> acc = concat (map (kept_item w s) ds)"
proof (induction w s ds arbitrary: s1 acc rule: collect_items.induct)
  case (1 w s)
  then show ?case by simp
next
  case (2 w s rest)
  from "2.prems" have c: "collect_items w (s\<lparr>failed_count := failed_count s + 1\<rparr>) rest = (s1, Inr acc)"
    by simp
  have "\<And>d. kept_item w (s\<lparr>failed_count := failed_count s + 1\<rparr>) d = kept_item w s d"
    by (rule kept_item_indep) simp
  with "2.IH" [OF c] show ?case by (simp add: kept_item_def)
next
  case (3 w s details rest)
  obtain sa ra where p: "process_item w s details = (sa, ra)" by (cases "process_item w s details")
  with "3.prems" obtain r where ra: "ra = Inr r" by (cases ra) simp_all
  obtain sb rb where q: "collect_items w sa rest = (sb, rb)" by (cases "collect_items w sa rest")
  with "3.prems" p ra obtain acc' where rb: "rb = Inr acc'" by (cases rb) simp_all
  from "3.prems" p ra q rb have acc: "acc = (case r of None \<Rightarrow> acc' | Some item \<Rightarrow> item # acc')"
    by simp
  from process_item_same [OF p] have "download_images sa = download_images s"
    by (simp add: same_store_def)
  then have "\<And>d. kept_item w sa d = kept_item w s d" by (rule kept_item_indep)
  with "3.IH" [OF p [symmetric] ra q [unfolded rb]] have tail: "acc' = concat (map (kept_item w s) rest)"
    by simp
  from p ra have "kept_item w s (Some details) = (case r of None \<Rightarrow> [] | Some item \<Rightarrow> [item])"
    by (simp add: kept_item_def split: option.splits)
  with acc tail show ?case by (simp split: option.splits)
qed

lemma kept_item_ok:
  "i \<in> set (kept_item w s d) \<Longrightarrow>
   images i \<noteq> [] \<and> (\<forall>r\<in>set (images i). truthy (url r) \<and> (\<not> download_images s \<longrightarrow> localPath r = []))"
proof -
  assume a: "i \<in> set (kept_item w s d)"
  then obtain det where d: "d = Some det" by (cases d) (simp_all add: kept_item_def)
  obtain sa ra where p: "process_item w s det = (sa, ra)" by (cases "process_item w s det")
  with a d have "ra = Inr (Some i)"
    by (auto simp: kept_item_def split: sum.splits option.splits)
  with p process_item_ok [of w s det sa i] show ?thesis by simp
qed

lemma build_mod_data_ok:
  "build_mod_data w s n found = (s1, Inr m) \<Longrightarrow> i \<in> set (items m) \<Longrightarrow>
   images i \<noteq> [] \<and> (\<forall>r\<in>set (images i). truthy (url r) \<and> (\<not> download_images s \<longrightarrow> localPath r = []))"
proof -
  assume a: "build_mod_data w s n found = (s1, Inr m)" and b: "i \<in> set (items m)"
  from a obtain its where it: "py_iter found = Inr its"
    by (cases "py_iter found") (simp_all add: build_mod_data_def)
  obtain sa ra where p: "submit_items w s its = (sa, ra)" by (cases "submit_items w s its")
  with a it obtain futures where ra: "ra = Inr futures" by (cases ra) (simp_all add: build_mod_data_def)
  obtain sb rb where q: "collect_items w sa (as_completed (item_order w its) futures) = (sb, rb)"
    by (cases "collect_items w sa (as_completed (item_order w its) futures)")
  with a it p ra obtain acc where rb: "rb = Inr acc" by (cases rb) (simp_all add: build_mod_data_def)
  from a it p ra q rb have "items m = acc" by (auto simp: build_mod_data_def)
  with b collect_items_kept [OF q [unfolded rb]] obtain d where "i \<in> set (kept_item w sa d)"
    by auto
  from kept_item_ok [OF this] submit_items_same [OF p] show ?thesis
    by (simp add: same_store_def)
qed

lemma fetch_mod_ok:
  "fetch_mod w s n = (s1, Some m) \<Longrightarrow> i \<in> set (items m) \<Longrightarrow>
   images i \<noteq> [] \<and> (\<forall>r\<in>set (images i). truthy (url r) \<and> (\<not> download_images s \<longrightarrow> localPath r = []))"
proof -
  assume a: "fetch_mod w s n = (s1, Some m)" and b: "i \<in> set (items m)"
  obtain sa found where g: "get_mod_items w s n = (sa, found)" by (cases "get_mod_items w s n")
  obtain sb rb where q: "build_mod_data w sa n found = (sb, rb)" by (cases "build_mod_data w sa n found")
  from a g q have "rb = Inr m"
    by (auto simp: fetch_mod_def split: if_splits sum.splits)
  from build_mod_data_ok [OF q [unfolded this] b] get_mod_items_same [OF g] show ?thesis
    by (simp add: same_store_def)
qed

lemma process_mod_cases:
  "mods (data (fst (process_mod w s n))) = mods (data s)
   \<or> (\<exists>s1 m. fetch_mod w s n = (s1, Some m)
        \<and> mods (data (fst (process_mod w s n))) = mods (data s) @ [m])"
proof (cases "existing_mod s n")
  case (Some a)
  then show ?thesis by (simp add: process_mod_def)
next
  case None
  obtain s1 r where f: "fetch_mod w s n = (s1, r)" by (cases "fetch_mod w s n")
  from fetch_mod_same [OF f] have d: "data s1 = data s" by (simp add: same_store_def)
  with None f show ?thesis
    by (cases r) (simp_all add: process_mod_def append_mod_data)
qed

lemma process_mod_every_item_has_image:
  "every_item_has_image (data s) \<Longrightarrow> every_item_has_image (data (fst (process_mod w s n)))"
  using process_mod_cases [of w s n]
  by (auto simp: every_item_has_image_def) (use fetch_mod_ok in blast)+


lemma get_item_details_indep: "snd (get_item_details w s t) = snd (get_item_details w s' t)"
  by (simp add: get_item_details_result)

lemma submit_items_result:
  "submit_items w s its = (s1, Inr futures) \<Longrightarrow>
   futures = map (\<lambda>item. snd (get_item_details w s (item_title item))) its"
proof (induction its arbitrary: s s1 futures)
  case Nil
  then show ?case by simp
next
  case (Cons it its)
  from Cons.prems obtain t where t: "py_getitem it ''title'' = Inr t"
    by (cases "py_getitem it ''title''") simp_all
  obtain sa ra where p: "get_item_details w s t = (sa, ra)" by (cases "get_item_details w s t")
  obtain sb rb where q: "submit_items w sa its = (sb, rb)" by (cases "submit_items w sa its")
  from Cons.prems t p q obtain rs where rb: "rb = Inr rs" and f: "futures = ra # rs"
    by (cases rb) auto
  from Cons.IH [OF q [unfolded rb]]
  have "rs = map (\<lambda>item. snd (get_item_details w sa (item_title item))) its" .
  then have "rs = map (\<lambda>item. snd (get_item_details w s (item_title item))) its"
    using get_item_details_indep [of w sa _ s] by simp
  with f p t show ?case by (simp add: item_title_def)
qed

lemma collect_items_no_raise:
  "collect_items w s ds = (s1, Inr acc) \<Longrightarrow> Some det \<in> set ds \<Longrightarrow>
   \<exists>r. snd (process_item w s det) = Inr r"
proof (induction w s ds arbitrary: s1 acc rule: collect_items.induct)
  case (1 w s)
  then show ?case by simp
next
  case (2 w s rest)
  from "2.prems" have c: "collect_items w (s\<lparr>failed_count := failed_count s + 1\<rparr>) rest = (s1, Inr acc)"
    and m: "Some det \<in> set rest" by simp_all
  from "2.IH" [OF c m] obtain r where "snd (process_item w (s\<lparr>failed_count := failed_count s + 1\<rparr>) det) = Inr r"
    by blast
  moreover have "snd (process_item w (s\<lparr>failed_count := failed_count s + 1\<rparr>) det) = snd (process_item w s det)"
    by (rule process_item_indep) simp
  ultimately show ?case by metis
next
  case (3 w s details rest)
  obtain sa ra where p: "process_item w s details = (sa, ra)" by (cases "process_item w s details")
  with "3.prems" obtain r where ra: "ra = Inr r" by (cases ra) simp_all
  obtain sb rb where q: "collect_items w sa rest = (sb, rb)" by (cases "collect_items w sa rest")
  with "3.prems" p ra obtain acc' where rb: "rb = Inr acc'" by (cases rb) simp_all
  show ?case
  proof (cases "det = details")
    case True
    with p ra show ?thesis by simp
  next
    case False
    with "3.prems" have m: "Some det \<in> set rest" by simp
    from "3.IH" [OF p [symmetric] ra q [unfolded rb] m] obtain r' where "snd (process_item w sa det) = Inr r'"
      by blast
    moreover from process_item_same [OF p] have "download_images sa = download_images s"
      by (simp add: same_store_def)
    then have "snd (process_item w sa det) = snd (process_item w s det)"
      by (rule process_item_indep)
    ultimately show ?thesis by simp
  qed
qed

lemma kept_item_iff:
  assumes "snd (process_item w s det) = Inr r"
  shows "(kept_item w s (Some det) \<noteq> []) =
     (\<exists>t\<in>set (image_titles det). (\<exists>x. t = JStr x \<and> has_image_ext x) \<and> truthy (snd (get_image_url w s t)))"
proof -
  from assms have p: "process_item w s det = (fst (process_item w s det), Inr r)"
    by (simp add: prod_eq_iff)
  from assms have "(kept_item w s (Some det) \<noteq> []) = (r \<noteq> None)"
    by (cases r) (simp_all add: kept_item_def)
  with process_item_kept_iff [OF p] show ?thesis by simp
qed

lemma build_mod_data_items:
  assumes "build_mod_data w s n found = (s1, Inr m)"
  shows "\<exists>its. py_iter found = Inr its
     \<and> items m = concat (map (kept_item w s) (completed_details w s its))
     \<and> (\<forall>det. Some det \<in> set (completed_details w s its) \<longrightarrow> (\<exists>r. snd (process_item w s det) = Inr r))"
proof -
  from assms obtain its where it: "py_iter found = Inr its"
    by (cases "py_iter found") (simp_all add: build_mod_data_def)
  obtain sa ra where p: "submit_items w s its = (sa, ra)" by (cases "submit_items w s its")
  with assms it obtain futures where ra: "ra = Inr futures"
    by (cases ra) (simp_all add: build_mod_data_def)
  obtain sb rb where q: "collect_items w sa (as_completed (item_order w its) futures) = (sb, rb)"
    by (cases "collect_items w sa (as_completed (item_order w its) futures)")
  with assms it p ra obtain acc where rb: "rb = Inr acc"
    by (cases rb) (simp_all add: build_mod_data_def)
  from assms it p ra q rb have im: "items m = acc" by (auto simp: build_mod_data_def)
  from submit_items_result [OF p [unfolded ra]]
  have c: "as_completed (item_order w its) futures = completed_details w s its"
    by (simp add: completed_details_def)
  from submit_items_same [OF p] have dl: "download_images sa = download_images s"
    by (simp add: same_store_def)
  then have k: "kept_item w sa = kept_item w s" by (intro ext kept_item_indep)
  from collect_items_kept [OF q [unfolded rb]] im c k
  have i1: "items m = concat (map (kept_item w s) (completed_details w s its))" by simp
  have i2: "\<exists>r. snd (process_item w s det) = Inr r" if "Some det \<in> set (completed_details w s its)" for det
  proof -
    from that c have "Some det \<in> set (as_completed (item_order w its) futures)" by simp
    from collect_items_no_raise [OF q [unfolded rb] this]
    obtain r where "snd (process_item w sa det) = Inr r" by blast
    with process_item_indep [OF dl, of w det] show ?thesis by metis
  qed
  from it i1 i2 show ?thesis by blast
qed

lemma get_mod_items_indep: "snd (get_mod_items w s n) = snd (get_mod_items w s' n)"
  by (simp add: get_mod_items_result)

lemma completed_details_indep: "completed_details w s its = completed_details w s' its"
  using get_item_details_indep [of w s _ s'] by (simp add: completed_details_def)

lemma fetch_mod_items:
  assumes "fetch_mod w s n = (s1, Some m)"
  shows "\<exists>its. py_iter (snd (get_mod_items w s n)) = Inr its
     \<and> mod_name m = n
     \<and> items m = concat (map (kept_item w s) (completed_details w s its))
     \<and> (\<forall>det. Some det \<in> set (completed_details w s its) \<longrightarrow> (\<exists>r. snd (process_item w s det) = Inr r))"
proof -
  obtain sa found where g: "get_mod_items w s n = (sa, found)" by (cases "get_mod_items w s n")
  obtain sb rb where q: "build_mod_data w sa n found = (sb, rb)" by (cases "build_mod_data w sa n found")
  from assms g q have rb: "rb = Inr m"
    by (auto simp: fetch_mod_def split: if_splits sum.splits)
  from get_mod_items_same [OF g] have dl: "download_images sa = download_images s"
    by (simp add: same_store_def)
  from build_mod_data_items [OF q [unfolded rb]] obtain its where
    it: "py_iter found = Inr its"
    and i1: "items m = concat (map (kept_item w sa) (completed_details w sa its))"
    and i2: "\<forall>det. Some det \<in> set (completed_details w sa its) \<longrightarrow> (\<exists>r. snd (process_item w sa det) = Inr r)"
    by blast
  have k: "kept_item w sa = kept_item w s" using dl by (intro ext kept_item_indep)
  have c: "completed_details w sa its = completed_details w s its" by (rule completed_details_indep)
  have pi: "\<And>det. snd (process_item w sa det) = snd (process_item w s det)"
    using dl by (rule process_item_indep)
  from g it have "py_iter (snd (get_mod_items w s n)) = Inr its" by simp
  moreover from assms have "mod_name m = n" by (rule fetch_mod_name)
  moreover from i1 k c have "items m = concat (map (kept_item w s) (completed_details w s its))" by simp
  moreover from i2 c pi have "\<forall>det. Some det \<in> set (completed_details w s its) \<longrightarrow> (\<exists>r. snd (process_item w s det) = Inr r)"
    by simp
  ultimately show ?thesis by blast
qed

lemma process_mod_new:
  assumes "existing_mod s n = None" and "process_mod w s n = (s', True)"
  shows "\<exists>s1 m. fetch_mod w s n = (s1, Some m) \<and> s' = append_mod w s1 m"
proof -
  obtain s1 r where f: "fetch_mod w s n = (s1, r)" by (cases "fetch_mod w s n")
  with assms show ?thesis by (cases r) (simp_all add: process_mod_def)
qed

lemma append_mod_file:
  "json_dump w (data (append_mod w s m)) = Dumped \<Longrightarrow>
   json_file (append_mod w s m) = Holds (data (append_mod w s m))"
proof -
  assume a: "json_dump w (data (append_mod w s m)) = Dumped"
  have "data (append_mod w s m) = data (s\<lparr>data := (data s)\<lparr>mods := mods (data s) @ [m]\<rparr>\<rparr>)"
    by (simp add: append_mod_def save_data_def split: dump_result.splits)
  with a have "json_dump w (data (s\<lparr>data := (data s)\<lparr>mods := mods (data s) @ [m]\<rparr>\<rparr>)) = Dumped"
    by simp
  then show ?thesis
    by (simp add: append_mod_def save_data_def)
qed














subsection \<open>A name that is already in the store\<close>

text \<open>
  C2. When the store has a record whose \<^verbatim>\<open>mod_name\<close> is the name given,
  \<^verbatim>\<open>process_mod\<close> returns \<^verbatim>\<open>True\<close> and the fetcher is exactly what it was: no request
  was issued, no counter moved, the store in memory and the JSON file are untouched.
\<close>

theorem process_mod_existing:
  "n \<in> mod_name ` set (mods (data s)) \<Longrightarrow> process_mod w s n = (s, True)"
  using existing_mod_Some_iff [of s n]
  by (auto simp: process_mod_def split: option.splits)

theorem process_mod_existing_witness:
  "''AppleSkin'' \<in> mod_name ` set (mods (data stocked))
   \<and> process_mod sample_world stocked ''AppleSkin'' = (stocked, True)"
  using process_mod_existing [of "''AppleSkin''" stocked sample_world]
  by (simp add: stocked_def)

subsection \<open>A search without results\<close>

text \<open>
  C4. When the name is not in the store and the search stage returns nothing (an empty
  list, or any value Python takes for false), \<^verbatim>\<open>process_mod\<close> returns \<^verbatim>\<open>False\<close>; the
  fetcher differs from before only by the one search request and by
  \<^verbatim>\<open>failed_count\<close>, which is one higher. The store in memory and the JSON file are as
  they were.
\<close>

theorem process_mod_no_results:
  assumes "existing_mod s n = None" and "\<not> truthy (snd (get_mod_items w s n))"
  shows "process_mod w s n =
           (s\<lparr>requests := requests s @ [ApiGet (search_params n)],
              failed_count := failed_count s + 1\<rparr>, False)
         \<and> data (fst (process_mod w s n)) = data s
         \<and> json_file (fst (process_mod w s n)) = json_file s"
proof -
  obtain s1 found where g: "get_mod_items w s n = (s1, found)"
    by (cases "get_mod_items w s n")
  with get_mod_items_state [of w s n]
  have "s1 = s\<lparr>requests := requests s @ [ApiGet (search_params n)]\<rparr>"
    by simp
  with g assms show ?thesis
    by (simp add: process_mod_def fetch_mod_def)
qed

theorem process_mod_no_results_witness:
  "existing_mod (fresh False) ''Nothing'' = None
   \<and> \<not> truthy (snd (get_mod_items sample_world (fresh False) ''Nothing''))
   \<and> process_mod sample_world (fresh False) ''Nothing'' =
       ((fresh False)\<lparr>requests := [ApiGet (search_params ''Nothing'')], failed_count := 1\<rparr>, False)
   \<and> data (fst (process_mod sample_world (fresh False) ''Nothing'')) = empty_store
   \<and> json_file (fst (process_mod sample_world (fresh False) ''Nothing'')) = Absent"
proof -
  have a: "existing_mod (fresh False) ''Nothing'' = None"
    by (simp add: existing_mod_def fresh_def init_def load_existing_data_def load_try_def
        empty_store_def)
  have "api_get sample_world (search_params ''Nothing'')
          = Body (JObj [(''query'', JObj [(''search'', JArr [])])])"
    by (simp add: sample_world_def search_params_def)
  then have b: "\<not> truthy (snd (get_mod_items sample_world (fresh False) ''Nothing''))"
    by (simp add: get_mod_items_result search_results_def py_getitem_def)
  have c: "requests (fresh False) = [] \<and> failed_count (fresh False) = 0
           \<and> data (fresh False) = empty_store \<and> json_file (fresh False) = Absent"
    by (simp add: fresh_def init_def load_existing_data_def load_try_def)
  from a b c process_mod_no_results [OF a b] show ?thesis
    by simp
qed

subsection \<open>The search stage\<close>

text \<open>
  C8 as stated fails. The claim promises the empty list for every malformed response.
  \<^verbatim>\<open>get_mod_items\<close> returns \<^verbatim>\<open>data['query']['search']\<close> without looking at it: when
  the response has a string there, the string is what the caller gets.
\<close>

theorem search_entry_returned_unchecked:
  "api_get odd_world (search_params ''Odd'')
     = Body (JObj [(''query'', JObj [(''search'', JStr ''abc'')])])
   \<and> snd (get_mod_items odd_world (fresh False) ''Odd'') = JStr ''abc''
   \<and> snd (get_mod_items odd_world (fresh False) ''Odd'') \<noteq> JArr []
   \<and> (\<nexists>xs. snd (get_mod_items odd_world (fresh False) ''Odd'') = JArr xs)"
proof -
  have a: "api_get odd_world (search_params ''Odd'')
     = Body (JObj [(''query'', JObj [(''search'', JStr ''abc'')])])"
    by (simp add: odd_world_def)
  then have "snd (get_mod_items odd_world (fresh False) ''Odd'') = JStr ''abc''"
    by (simp add: get_mod_items_result search_results_def py_getitem_def)
  with a show ?thesis by simp
qed

text \<open>
  C8, amended. \<^verbatim>\<open>get_mod_items\<close> issues one request and nothing else: its parameters
  carry the mod name followed by \<^verbatim>\<open> items\<close> as \<^verbatim>\<open>srsearch\<close>, \<^verbatim>\<open>50\<close> as
  \<^verbatim>\<open>srlimit\<close> and \<^verbatim>\<open>0\<close> as \<^verbatim>\<open>srnamespace\<close>. When the answer is a JSON object with
  an object under \<^verbatim>\<open>query\<close> that has a \<^verbatim>\<open>search\<close> entry, that entry is returned as
  it is: the result list when it is a list, and any other value unchanged. In every
  other case (no answer, an answer that is not JSON, an answer without
  \<^verbatim>\<open>query\<close> or \<^verbatim>\<open>search\<close>) the result is the empty list. The function has a result
  for every world: no exception leaves it.
\<close>

theorem get_mod_items_spec:
  "fst (get_mod_items w s n) = s\<lparr>requests := requests s @ [ApiGet (search_params n)]\<rparr>
   \<and> map_of (search_params n) ''srsearch'' = Some (JStr (n @ '' items''))
   \<and> map_of (search_params n) ''srlimit'' = Some (JStr ''50'')
   \<and> map_of (search_params n) ''srnamespace'' = Some (JStr ''0'')
   \<and> (api_get w (search_params n) = Body d \<and> py_getitem d ''query'' = Inr q
        \<and> py_getitem q ''search'' = Inr v \<longrightarrow> snd (get_mod_items w s n) = v)
   \<and> ((\<nexists>d q v. api_get w (search_params n) = Body d \<and> py_getitem d ''query'' = Inr q
        \<and> py_getitem q ''search'' = Inr v) \<longrightarrow> snd (get_mod_items w s n) = JArr [])"
proof -
  have ok: "api_get w (search_params n) = Body d \<and> py_getitem d ''query'' = Inr q
        \<and> py_getitem q ''search'' = Inr v \<longrightarrow> snd (get_mod_items w s n) = v"
  proof
    assume h: "api_get w (search_params n) = Body d \<and> py_getitem d ''query'' = Inr q
        \<and> py_getitem q ''search'' = Inr v"
    then have "search_results d = Inr (Some v)"
      using search_results_Some [of d v] by blast
    with h show "snd (get_mod_items w s n) = v"
      by (simp add: get_mod_items_result)
  qed
  have bad: "(\<nexists>d q v. api_get w (search_params n) = Body d \<and> py_getitem d ''query'' = Inr q
        \<and> py_getitem q ''search'' = Inr v) \<longrightarrow> snd (get_mod_items w s n) = JArr []"
  proof
    assume h: "\<nexists>d q v. api_get w (search_params n) = Body d \<and> py_getitem d ''query'' = Inr q
        \<and> py_getitem q ''search'' = Inr v"
    show "snd (get_mod_items w s n) = JArr []"
    proof (cases "api_get w (search_params n)")
      case (Body d)
      with h have "\<And>v. search_results d \<noteq> Inr (Some v)"
        using search_results_Some by blast
      with Body show ?thesis
        by (simp add: get_mod_items_result split: sum.splits option.splits)
    qed (simp_all add: get_mod_items_result)
  qed
  have params: "map_of (search_params n) ''srsearch'' = Some (JStr (n @ '' items''))
   \<and> map_of (search_params n) ''srlimit'' = Some (JStr ''50'')
   \<and> map_of (search_params n) ''srnamespace'' = Some (JStr ''0'')"
    by (simp add: search_params_def)
  from ok bad params get_mod_items_state [of w s n] show ?thesis by blast
qed

theorem get_mod_items_spec_witness:
  "api_get sample_world (search_params ''AppleSkin'') = Body sample_search
   \<and> py_getitem sample_search ''query'' = Inr (JObj [(''search'',
       JArr [JObj [(''title'', JStr ''Apple'')], JObj [(''title'', JStr ''Stick'')]])])
   \<and> py_getitem (JObj [(''search'',
       JArr [JObj [(''title'', JStr ''Apple'')], JObj [(''title'', JStr ''Stick'')]])]) ''search''
       = Inr (JArr [JObj [(''title'', JStr ''Apple'')], JObj [(''title'', JStr ''Stick'')]])
   \<and> get_mod_items sample_world (fresh False) ''AppleSkin''
       = ((fresh False)\<lparr>requests := [ApiGet (search_params ''AppleSkin'')]\<rparr>,
          JArr [JObj [(''title'', JStr ''Apple'')], JObj [(''title'', JStr ''Stick'')]])
   \<and> (\<nexists>d q v. api_get sample_world (search_params ''Gone'') = Body d \<and> py_getitem d ''query'' = Inr q
        \<and> py_getitem q ''search'' = Inr v)
   \<and> snd (get_mod_items sample_world (fresh False) ''Gone'') = JArr []"
proof -
  have a: "api_get sample_world (search_params ''AppleSkin'') = Body sample_search"
    by (simp add: sample_world_def)
  have b: "py_getitem sample_search ''query'' = Inr (JObj [(''search'',
       JArr [JObj [(''title'', JStr ''Apple'')], JObj [(''title'', JStr ''Stick'')]])])"
    by (simp add: sample_search_def py_getitem_def)
  have c: "py_getitem (JObj [(''search'',
       JArr [JObj [(''title'', JStr ''Apple'')], JObj [(''title'', JStr ''Stick'')]])]) ''search''
       = Inr (JArr [JObj [(''title'', JStr ''Apple'')], JObj [(''title'', JStr ''Stick'')]])"
    by (simp add: py_getitem_def)
  have g: "api_get sample_world (search_params ''Gone'') = ConnectionFailed"
    by (simp add: sample_world_def search_params_def details_params_def image_params_def)
  then have d: "\<nexists>d q v. api_get sample_world (search_params ''Gone'') = Body d \<and> py_getitem d ''query'' = Inr q
        \<and> py_getitem q ''search'' = Inr v"
    by simp
  have e: "requests (fresh False) = []"
    by (simp add: fresh_def init_def load_existing_data_def load_try_def)
  from a b c d e
    get_mod_items_spec [of sample_world "fresh False" "''AppleSkin''" sample_search
      "JObj [(''search'', JArr [JObj [(''title'', JStr ''Apple'')], JObj [(''title'', JStr ''Stick'')]])]"
      "JArr [JObj [(''title'', JStr ''Apple'')], JObj [(''title'', JStr ''Stick'')]]"]
    get_mod_items_spec [of sample_world "fresh False" "''Gone''"]
  show ?thesis
    by (simp add: prod_eq_iff)
qed

subsection \<open>Loading the store\<close>

text \<open>
  C10. When reading the JSON file fails (it cannot be opened, or it is not JSON), the
  fetcher starts exactly as it starts without a file, the empty store in memory; the
  file itself is left as it is. The first mod appended afterwards, if the dump succeeds,
  leaves the file holding that one record: nothing of the old content is kept.
\<close>

theorem load_failure_is_empty_store:
  "load_try f = Inl e \<Longrightarrow>
     init dl f = (init dl Absent)\<lparr>json_file := f\<rparr>
     \<and> data (init dl f) = empty_store
     \<and> json_file (init dl f) = f
     \<and> (json_dump w \<lparr>mods = [m]\<rparr> = Dumped \<longrightarrow>
          json_file (append_mod w (init dl f) m) = Holds \<lparr>mods = [m]\<rparr>)"
  by (auto simp: init_def load_existing_data_def load_try_def append_mod_def save_data_def empty_store_def
      split: file_state.splits)

theorem load_failure_is_empty_store_witness:
  "load_try Malformed = Inl JSONDecodeError
   \<and> init False Malformed = (init False Absent)\<lparr>json_file := Malformed\<rparr>
   \<and> data (init False Malformed) = empty_store
   \<and> json_file (init False Malformed) = Malformed
   \<and> json_dump sample_world \<lparr>mods = [\<lparr>mod_name = ''AppleSkin'', items = []\<rparr>]\<rparr> = Dumped
   \<and> json_file (append_mod sample_world (init False Malformed) \<lparr>mod_name = ''AppleSkin'', items = []\<rparr>)
       = Holds \<lparr>mods = [\<lparr>mod_name = ''AppleSkin'', items = []\<rparr>]\<rparr>"
proof -
  have a: "load_try Malformed = Inl JSONDecodeError" by (simp add: load_try_def)
  have b: "json_dump sample_world \<lparr>mods = [\<lparr>mod_name = ''AppleSkin'', items = []\<rparr>]\<rparr> = Dumped"
    by (simp add: sample_world_def)
  from a b load_failure_is_empty_store [OF a, of False sample_world "\<lparr>mod_name = ''AppleSkin'', items = []\<rparr>"]
  show ?thesis by blast
qed


subsection \<open>The detail stage\<close>




subsection \<open>The filter on image titles\<close>

text \<open>
  C1. The claim is that the filter keeps exactly the titles that end in one of the
  extensions. The source tests whether the extension occurs anywhere in the lowered
  title. A title that ends in an extension is kept (\<open>ends_with_has_image_ext\<close>), but
  the title \<^verbatim>\<open>File:Apple.png.svg\<close>, which does not end in one, is kept as well: the
  loop hands it to \<^verbatim>\<open>process_image\<close>, which asks the API for its URL.
\<close>

theorem has_image_ext_inside_title:
  "has_image_ext ''File:Apple.png.svg''
   \<and> \<not> ends_with_image_ext ''File:Apple.png.svg''
   \<and> requests (fst (submit_images sample_world (fresh False)
         \<lparr>title = JStr ''Apple'', description = JStr [], image_titles = [JStr ''File:Apple.png.svg'']\<rparr>
         [JStr ''File:Apple.png.svg'']))
       = [ApiGet (image_params (JStr ''File:Apple.png.svg''))]"
proof -
  have a: "has_image_ext ''File:Apple.png.svg''"
    by (simp add: has_image_ext_def image_exts_def lower_def lower_char_def)
  have b: "\<not> ends_with_image_ext ''File:Apple.png.svg''"
    by (simp add: ends_with_image_ext_def image_exts_def lower_def lower_char_def suffix_def)
  have c: "requests (fresh False) = []"
    by (simp add: fresh_def init_def load_existing_data_def load_try_def)
  have d: "api_get sample_world (image_params (JStr ''File:Apple.png.svg'')) = ConnectionFailed"
    by (simp add: sample_world_def search_params_def details_params_def image_params_def)
  from a c d have "requests (fst (submit_images sample_world (fresh False)
         \<lparr>title = JStr ''Apple'', description = JStr [], image_titles = [JStr ''File:Apple.png.svg'']\<rparr>
         [JStr ''File:Apple.png.svg'']))
       = [ApiGet (image_params (JStr ''File:Apple.png.svg''))]"
    by (simp add: process_image_def get_image_url_def requests_get_def)
  with a b show ?thesis by simp
qed


subsection \<open>Names in the store\<close>

text \<open>One task that takes its three steps without interruption is \<^verbatim>\<open>process_mod\<close>.\<close>

lemma one_task_is_process_mod:
  "run_schedule w s [Submitted n] [0, 0, 0]
     = (fst (process_mod w s n), [Returned (snd (process_mod w s n))])"
  by (auto simp: process_mod_def split: option.splits prod.splits)




subsection \<open>Items and their images\<close>

lemma sample_item_kept: "snd (process_item sample_world (fresh False) sample_details)
             = Inr (Some \<lparr>images = [sample_image []]\<rparr>)"
  by code_simp

lemma unresolved_item_dropped: "snd (process_item sample_world (fresh False) unresolved_details) = Inr None"
  by code_simp

lemma sample_items_collected: "snd (collect_items sample_world (fresh False) [Some sample_details, None, Some unresolved_details])
             = Inr [\<lparr>images = [sample_image []]\<rparr>]"
  by code_simp

lemma fresh_every_item_has_image: "every_item_has_image (data (fresh False))"
  by (simp add: every_item_has_image_def fresh_def init_def load_existing_data_def load_try_def empty_store_def)

lemma sample_completed_details:
  "completed_details sample_world (fresh False)
      [JObj [(''title'', JStr ''Apple'')], JObj [(''title'', JStr ''Stick'')]]
     = [None, Some sample_details]"
  by code_simp

lemma sample_mod_persisted:
  "process_mod sample_world (fresh False) ''AppleSkin''
     = (fst (process_mod sample_world (fresh False) ''AppleSkin''), True)
   \<and> mods (data (fst (process_mod sample_world (fresh False) ''AppleSkin'')))
       = [\<lparr>mod_name = ''AppleSkin'', items = [\<lparr>images = [sample_image []]\<rparr>]\<rparr>]
   \<and> json_file (fst (process_mod sample_world (fresh False) ''AppleSkin''))
       = Holds \<lparr>mods = [\<lparr>mod_name = ''AppleSkin'', items = [\<lparr>images = [sample_image []]\<rparr>]\<rparr>]\<rparr>"
  by code_simp

lemma sample_kept_item:
  "kept_item sample_world (fresh False) (Some sample_details) = [\<lparr>images = [sample_image []]\<rparr>]
   \<and> kept_item sample_world (fresh False) (Some unresolved_details) = []"
  by code_simp

text \<open>
  C5. Of the items whose details came back, \<^verbatim>\<open>process_item\<close> appends exactly those
  with an image title that passes the filter and resolves to a URL. When
  \<^verbatim>\<open>process_mod\<close> handles a new name and returns \<^verbatim>\<open>True\<close>, the store has gained one
  record of that name whose items are, in the order of completion, the items so kept
  of the details fetched for the search results and no others: an item is in the list
  exactly when one of its images resolved. Every item of the record has an image
  record with a resolved URL, and when the dump succeeds the JSON file holds that
  store. A store in which every item has an image keeps that under \<^verbatim>\<open>process_mod\<close>.
\<close>

theorem kept_items_are_persisted:
  "(process_item w s det = (s1, Inr r) \<longrightarrow>
      (r \<noteq> None) =
        (\<exists>t\<in>set (image_titles det).
            (\<exists>x. t = JStr x \<and> has_image_ext x) \<and> truthy (snd (get_image_url w s t))))
   \<and> (existing_mod s n = None \<and> process_mod w s n = (s', True) \<longrightarrow>
        (\<exists>its m. py_iter (snd (get_mod_items w s n)) = Inr its
           \<and> mods (data s') = mods (data s) @ [m] \<and> mod_name m = n
           \<and> items m = concat (map (kept_item w s) (completed_details w s its))
           \<and> (\<forall>d. Some d \<in> set (completed_details w s its) \<longrightarrow>
                 (kept_item w s (Some d) \<noteq> []) =
                   (\<exists>t\<in>set (image_titles d).
                      (\<exists>x. t = JStr x \<and> has_image_ext x) \<and> truthy (snd (get_image_url w s t))))
           \<and> (\<forall>i\<in>set (items m). images i \<noteq> [] \<and> (\<forall>r\<in>set (images i). truthy (url r)))
           \<and> (json_dump w (data s') = Dumped \<longrightarrow> json_file s' = Holds (data s'))))
   \<and> (every_item_has_image (data s) \<longrightarrow>
        every_item_has_image (data (fst (process_mod w s n))))"
proof -
  have b: "\<exists>its m. py_iter (snd (get_mod_items w s n)) = Inr its
           \<and> mods (data s') = mods (data s) @ [m] \<and> mod_name m = n
           \<and> items m = concat (map (kept_item w s) (completed_details w s its))
           \<and> (\<forall>d. Some d \<in> set (completed_details w s its) \<longrightarrow>
                 (kept_item w s (Some d) \<noteq> []) =
                   (\<exists>t\<in>set (image_titles d).
                      (\<exists>x. t = JStr x \<and> has_image_ext x) \<and> truthy (snd (get_image_url w s t))))
           \<and> (\<forall>i\<in>set (items m). images i \<noteq> [] \<and> (\<forall>r\<in>set (images i). truthy (url r)))
           \<and> (json_dump w (data s') = Dumped \<longrightarrow> json_file s' = Holds (data s'))"
    if h: "existing_mod s n = None" "process_mod w s n = (s', True)"
  proof -
    from process_mod_new [OF h] obtain sa m where f: "fetch_mod w s n = (sa, Some m)"
      and s': "s' = append_mod w sa m" by blast
    from fetch_mod_same [OF f] have d: "data sa = data s" by (simp add: same_store_def)
    from fetch_mod_items [OF f] obtain its where
      it: "py_iter (snd (get_mod_items w s n)) = Inr its" and nm: "mod_name m = n"
      and i1: "items m = concat (map (kept_item w s) (completed_details w s its))"
      and i2: "\<forall>det. Some det \<in> set (completed_details w s its) \<longrightarrow> (\<exists>r. snd (process_item w s det) = Inr r)"
      by blast
    have mods: "mods (data s') = mods (data s) @ [m]"
      by (simp add: s' append_mod_data d)
    have iff: "\<forall>d. Some d \<in> set (completed_details w s its) \<longrightarrow>
                 (kept_item w s (Some d) \<noteq> []) =
                   (\<exists>t\<in>set (image_titles d).
                      (\<exists>x. t = JStr x \<and> has_image_ext x) \<and> truthy (snd (get_image_url w s t)))"
      using i2 kept_item_iff by blast
    have ok: "\<forall>i\<in>set (items m). images i \<noteq> [] \<and> (\<forall>r\<in>set (images i). truthy (url r))"
      using fetch_mod_ok [OF f] by blast
    have saved: "json_dump w (data s') = Dumped \<longrightarrow> json_file s' = Holds (data s')"
      unfolding s' using append_mod_file by blast
    from it mods nm i1 iff ok saved show ?thesis by blast
  qed
  from b process_item_kept_iff [of w s det s1 r] process_mod_every_item_has_image [of s w n]
  show ?thesis by blast
qed

theorem kept_items_are_persisted_witness:
  "process_item sample_world (fresh False) sample_details
     = (fst (process_item sample_world (fresh False) sample_details),
        Inr (Some \<lparr>images = [sample_image []]\<rparr>))
   \<and> (\<exists>t\<in>set (image_titles sample_details).
         (\<exists>x. t = JStr x \<and> has_image_ext x)
         \<and> truthy (snd (get_image_url sample_world (fresh False) t)))
   \<and> process_item sample_world (fresh False) unresolved_details
       = (fst (process_item sample_world (fresh False) unresolved_details), Inr None)
   \<and> (\<nexists>t. t \<in> set (image_titles unresolved_details)
         \<and> (\<exists>x. t = JStr x \<and> has_image_ext x)
         \<and> truthy (snd (get_image_url sample_world (fresh False) t)))
   \<and> existing_mod (fresh False) ''AppleSkin'' = None
   \<and> process_mod sample_world (fresh False) ''AppleSkin''
       = (fst (process_mod sample_world (fresh False) ''AppleSkin''), True)
   \<and> (\<exists>its m. py_iter (snd (get_mod_items sample_world (fresh False) ''AppleSkin'')) = Inr its
         \<and> mods (data (fst (process_mod sample_world (fresh False) ''AppleSkin'')))
             = mods (data (fresh False)) @ [m]
         \<and> mod_name m = ''AppleSkin''
         \<and> items m = concat (map (kept_item sample_world (fresh False))
                               (completed_details sample_world (fresh False) its)))
   \<and> completed_details sample_world (fresh False)
        [JObj [(''title'', JStr ''Apple'')], JObj [(''title'', JStr ''Stick'')]]
       = [None, Some sample_details]
   \<and> kept_item sample_world (fresh False) (Some sample_details) = [\<lparr>images = [sample_image []]\<rparr>]
   \<and> mods (data (fst (process_mod sample_world (fresh False) ''AppleSkin'')))
       = [\<lparr>mod_name = ''AppleSkin'', items = [\<lparr>images = [sample_image []]\<rparr>]\<rparr>]
   \<and> json_dump sample_world (data (fst (process_mod sample_world (fresh False) ''AppleSkin''))) = Dumped
   \<and> json_file (fst (process_mod sample_world (fresh False) ''AppleSkin''))
       = Holds (data (fst (process_mod sample_world (fresh False) ''AppleSkin'')))
   \<and> every_item_has_image (data (fresh False))
   \<and> every_item_has_image (data (fst (process_mod sample_world (fresh False) ''AppleSkin'')))"
proof -
  have a: "process_item sample_world (fresh False) sample_details
     = (fst (process_item sample_world (fresh False) sample_details),
        Inr (Some \<lparr>images = [sample_image []]\<rparr>))"
    using sample_item_kept by (simp add: prod_eq_iff)
  have b: "process_item sample_world (fresh False) unresolved_details
       = (fst (process_item sample_world (fresh False) unresolved_details), Inr None)"
    using unresolved_item_dropped by (simp add: prod_eq_iff)
  have e: "existing_mod (fresh False) ''AppleSkin'' = None"
    by (simp add: existing_mod_def fresh_def init_def load_existing_data_def load_try_def
        empty_store_def)
  have d: "json_dump sample_world (data (fst (process_mod sample_world (fresh False) ''AppleSkin''))) = Dumped"
    by (simp add: sample_world_def)
  note t1 = kept_items_are_persisted [of sample_world "fresh False" sample_details
      "fst (process_item sample_world (fresh False) sample_details)"
      "Some \<lparr>images = [sample_image []]\<rparr>" "''AppleSkin''"
      "fst (process_mod sample_world (fresh False) ''AppleSkin'')"]
  note t2 = kept_items_are_persisted [of sample_world "fresh False" unresolved_details
      "fst (process_item sample_world (fresh False) unresolved_details)" None]
  from sample_mod_persisted have p: "process_mod sample_world (fresh False) ''AppleSkin''
       = (fst (process_mod sample_world (fresh False) ''AppleSkin''), True)"
    and m: "mods (data (fst (process_mod sample_world (fresh False) ''AppleSkin'')))
       = [\<lparr>mod_name = ''AppleSkin'', items = [\<lparr>images = [sample_image []]\<rparr>]\<rparr>]"
    by blast+
  from t1 e p have ex: "\<exists>its m. py_iter (snd (get_mod_items sample_world (fresh False) ''AppleSkin'')) = Inr its
         \<and> mods (data (fst (process_mod sample_world (fresh False) ''AppleSkin'')))
             = mods (data (fresh False)) @ [m]
         \<and> mod_name m = ''AppleSkin''
         \<and> items m = concat (map (kept_item sample_world (fresh False))
                               (completed_details sample_world (fresh False) its))"
    by blast
  from t1 e p d have f: "json_file (fst (process_mod sample_world (fresh False) ''AppleSkin''))
       = Holds (data (fst (process_mod sample_world (fresh False) ''AppleSkin'')))"
    by blast
  from t1 a have r1: "\<exists>t\<in>set (image_titles sample_details).
         (\<exists>x. t = JStr x \<and> has_image_ext x)
         \<and> truthy (snd (get_image_url sample_world (fresh False) t))"
    by blast
  from t2 b have r2: "\<nexists>t. t \<in> set (image_titles unresolved_details)
         \<and> (\<exists>x. t = JStr x \<and> has_image_ext x)
         \<and> truthy (snd (get_image_url sample_world (fresh False) t))"
    by blast
  from t1 fresh_every_item_has_image
  have inv: "every_item_has_image (data (fst (process_mod sample_world (fresh False) ''AppleSkin'')))"
    by blast
  from a b e p ex f r1 r2 d m inv fresh_every_item_has_image sample_completed_details sample_kept_item
  show ?thesis by blast
qed

subsection \<open>Local paths\<close>









end
